theory Spec2Isabelle
  imports Complex_Main "HOL-Library.Word" "HOL-Library.AList"
begin

section \<open>JavaScript strings\<close>

text \<open>
  A JavaScript string is a sequence of 16-bit code units: \<open>length\<close> counts code units, and a
  regular expression without the \<open>u\<close> flag reads one code unit at a time. \<open>js\<close> writes an
  ASCII literal of the source as such a sequence.
\<close>

type_synonym cu = "16 word"
type_synonym jstring = "cu list"

definition js :: "string \<Rightarrow> jstring" where
  "js s = map of_char s"

text \<open>
  The code units that \<open>String.prototype.trim\<close> strips and that \<open>\s\<close> matches (ECMAScript
  WhiteSpace and LineTerminator): TAB, LF, VT, FF, CR, SP, NBSP, U+1680, U+2000 to U+200A,
  U+2028, U+2029, U+202F, U+205F, U+3000 and U+FEFF.
\<close>

definition is_ws :: "cu \<Rightarrow> bool" where
  "is_ws c \<longleftrightarrow>
     c \<in> set [9, 10, 11, 12, 13, 32, 160, 5760, 8232, 8233, 8239, 8287, 12288, 65279]
     \<or> (8192 \<le> c \<and> c \<le> 8202)"

definition trim :: "jstring \<Rightarrow> jstring" where
  "trim s = rev (dropWhile is_ws (rev (dropWhile is_ws s)))"


section \<open>JavaScript values\<close>

text \<open>
  A request body is whatever \<open>request.body().value\<close> yields: a parsed JSON value, or
  \<open>undefined\<close> when the request has no body. A number is kept as a rational; the handlers
  only ever ask whether it is zero.
\<close>

datatype jsval =
    Undefined
  | Null
  | Bool bool
  | Num rat
  | Str jstring
  | Arr "jsval list"
  | Obj "(jstring \<times> jsval) list"

type_synonym obj = "(jstring \<times> jsval) list"

text \<open>\<open>!v\<close> is \<open>\<not> truthy v\<close>.\<close>

fun truthy :: "jsval \<Rightarrow> bool" where
  "truthy Undefined = False"
| "truthy Null = False"
| "truthy (Bool b) = b"
| "truthy (Num n) = (n \<noteq> 0)"
| "truthy (Str s) = (s \<noteq> [])"
| "truthy (Arr vs) = True"
| "truthy (Obj ps) = True"

text \<open>\<open>typeof v === "string"\<close>.\<close>

fun is_str :: "jsval \<Rightarrow> bool" where
  "is_str (Str s) = True"
| "is_str v = False"

text \<open>The code units of a string value; only ever used behind an \<open>is_str\<close> test.\<close>

fun str_of :: "jsval \<Rightarrow> jstring" where
  "str_of (Str s) = s"
| "str_of v = []"

text \<open>Reading a property of \<open>null\<close> or \<open>undefined\<close> throws a TypeError.\<close>

fun nullish :: "jsval \<Rightarrow> bool" where
  "nullish Undefined = True"
| "nullish Null = True"
| "nullish v = False"

text \<open>
  \<open>v.k\<close> for a value that is not nullish. The property names read by the handlers
  (firstName, lastName, email, password, phone, address) are not properties of a string, a
  number, a boolean or an array, so there the read gives \<open>undefined\<close>.
\<close>

fun get_prop :: "jsval \<Rightarrow> jstring \<Rightarrow> jsval" where
  "get_prop (Obj ps) k = (case map_of ps k of Some v \<Rightarrow> v | None \<Rightarrow> Undefined)"
| "get_prop v k = Undefined"

datatype exn = TypeError | Rejected


section \<open>Regular expressions\<close>

text \<open>
  The two regular expressions of the validator use character classes, concatenation and
  \<open>+\<close> only, between \<open>^\<close> and \<open>$\<close>. \<open>rx_test\<close> decides whether the whole string matches, by
  taking the derivative of the expression by each code unit in turn.
\<close>

datatype rx =
    Fail
  | Eps
  | Class "cu \<Rightarrow> bool"
  | Cat rx rx
  | Alt rx rx
  | Star rx

definition Plus :: "rx \<Rightarrow> rx" where
  "Plus r = Cat r (Star r)"

fun nullable :: "rx \<Rightarrow> bool" where
  "nullable Fail = False"
| "nullable Eps = True"
| "nullable (Class p) = False"
| "nullable (Cat r s) = (nullable r \<and> nullable s)"
| "nullable (Alt r s) = (nullable r \<or> nullable s)"
| "nullable (Star r) = True"

fun deriv :: "cu \<Rightarrow> rx \<Rightarrow> rx" where
  "deriv c Fail = Fail"
| "deriv c Eps = Fail"
| "deriv c (Class p) = (if p c then Eps else Fail)"
| "deriv c (Cat r s) =
     (if nullable r then Alt (Cat (deriv c r) s) (deriv c s) else Cat (deriv c r) s)"
| "deriv c (Alt r s) = Alt (deriv c r) (deriv c s)"
| "deriv c (Star r) = Cat (deriv c r) (Star r)"

fun rx_test :: "rx \<Rightarrow> jstring \<Rightarrow> bool" where
  "rx_test r [] = nullable r"
| "rx_test r (c # cs) = rx_test (deriv c r) cs"

text \<open>\<open>[^@\s]\<close>\<close>

definition not_at_ws :: "cu \<Rightarrow> bool" where
  "not_at_ws c \<longleftrightarrow> \<not> (c = 64 \<or> is_ws c)"

text \<open>\<open>[+0-9]\<close>\<close>

definition plus_or_digit :: "cu \<Rightarrow> bool" where
  "plus_or_digit c \<longleftrightarrow> c = 43 \<or> (48 \<le> c \<and> c \<le> 57)"

text \<open>\<open>/^[^@\s]+@[^@\s]+\.[^@\s]+$/\<close>\<close>

definition emailRegex :: rx where
  "emailRegex =
     Cat (Plus (Class not_at_ws))
       (Cat (Class (\<lambda>c. c = 64))
          (Cat (Plus (Class not_at_ws))
             (Cat (Class (\<lambda>c. c = 46)) (Plus (Class not_at_ws)))))"

text \<open>\<open>/^[+0-9]+$/\<close>\<close>

definition phoneRegex :: rx where
  "phoneRegex = Plus (Class plus_or_digit)"


section \<open>The validator\<close>

text \<open>
  The messages pushed by \<open>validateUserData\<close>, in the order of the source:
  "firstName bo'sh bo'lmasligi kerak", "lastName bo'sh bo'lmasligi kerak",
  "email bo'sh yoki noto'g'ri tipda", "email noto'g'ri formatda",
  "Parol kamida 6 ta belgidan iborat bo'lishi kerak", "phone noto'g'ri yoki juda qisqa",
  "phone faqat raqam (va +) belgilaridan iborat bo'lishi kerak",
  "address bo'sh bo'lmasligi kerak".
\<close>

datatype verror =
    FirstNameEmpty
  | LastNameEmpty
  | EmailMissing
  | EmailFormat
  | PasswordShort
  | PhoneShort
  | PhoneFormat
  | AddressEmpty

text \<open>\<open>!v || typeof v !== "string" || !v.trim()\<close>\<close>

definition blank :: "jsval \<Rightarrow> bool" where
  "blank v \<longleftrightarrow> \<not> truthy v \<or> \<not> is_str v \<or> \<not> truthy (Str (trim (str_of v)))"

definition check_firstName :: "jsval \<Rightarrow> verror list" where
  "check_firstName data = (if blank (get_prop data (js ''firstName'')) then [FirstNameEmpty] else [])"

definition check_lastName :: "jsval \<Rightarrow> verror list" where
  "check_lastName data = (if blank (get_prop data (js ''lastName'')) then [LastNameEmpty] else [])"

definition check_email :: "jsval \<Rightarrow> verror list" where
  "check_email data =
     (let email = get_prop data (js ''email'') in
      if \<not> truthy email \<or> \<not> is_str email then [EmailMissing]
      else if \<not> rx_test emailRegex (str_of email) then [EmailFormat]
      else [])"

definition check_password :: "jsval \<Rightarrow> verror list" where
  "check_password data =
     (let password = get_prop data (js ''password'') in
      if \<not> truthy password \<or> \<not> is_str password \<or> length (str_of password) < 6
      then [PasswordShort] else [])"

definition check_phone :: "jsval \<Rightarrow> verror list" where
  "check_phone data =
     (let phone = get_prop data (js ''phone'') in
      if \<not> truthy phone \<or> \<not> is_str phone \<or> length (str_of phone) < 7 then [PhoneShort]
      else if \<not> rx_test phoneRegex (str_of phone) then [PhoneFormat]
      else [])"

definition check_address :: "jsval \<Rightarrow> verror list" where
  "check_address data = (if blank (get_prop data (js ''address'')) then [AddressEmpty] else [])"

text \<open>
  \<open>validateUserData\<close>: the six blocks push onto \<open>errors\<close> one after the other. The first
  statement reads \<open>data.firstName\<close>, which throws when \<open>data\<close> is \<open>null\<close> or \<open>undefined\<close>.
\<close>

definition validateUserData :: "jsval \<Rightarrow> exn + verror list" where
  "validateUserData data =
     (if nullish data then Inl TypeError
      else Inr (check_firstName data @ check_lastName data @ check_email data @
                check_password data @ check_phone data @ check_address data))"


section \<open>The key-value store\<close>

text \<open>
  Every key the program uses is \<open>["users", x]\<close>; the store is modelled by its entries under
  that prefix, keyed by \<open>x\<close>. Strings, numbers and booleans are key parts; \<open>kv.get\<close> and
  \<open>kv.set\<close> reject any other value with a TypeError. Every value the program stores is an
  object, kept as its list of properties; \<open>kv.get\<close> of a missing key has the value \<open>null\<close>,
  here \<open>None\<close>. The store itself is taken to be available and unbounded.
\<close>

type_synonym kv = "(jsval \<times> obj) list"

fun key_part :: "jsval \<Rightarrow> bool" where
  "key_part (Str s) = True"
| "key_part (Num n) = True"
| "key_part (Bool b) = True"
| "key_part v = False"

definition kv_get :: "kv \<Rightarrow> jsval \<Rightarrow> exn + obj option" where
  "kv_get st k = (if key_part k then Inr (map_of st k) else Inl TypeError)"

definition kv_set :: "kv \<Rightarrow> jsval \<Rightarrow> obj \<Rightarrow> exn + kv" where
  "kv_set st k v = (if key_part k then Inr (AList.update k v st) else Inl TypeError)"

definition kv_delete :: "kv \<Rightarrow> jsval \<Rightarrow> exn + kv" where
  "kv_delete st k = (if key_part k then Inr (AList.delete k st) else Inl TypeError)"

text \<open>\<open>kv.list({ prefix: ["users"] })\<close>: the entries, each with its key and value.\<close>

definition kv_list :: "kv \<Rightarrow> (jsval \<times> obj) list" where
  "kv_list st = st"


section \<open>The bcrypt library\<close>

text \<open>
  \<open>bcrypt.hash\<close> and \<open>bcrypt.compare\<close> belong to a library; the handlers are given them as
  parameters. Both are asynchronous and may reject. The salt handed to \<open>bcrypt.hash\<close> is what
  \<open>v4.generate()\<close> returned for this request; it is an input of the handler.
\<close>

record deps =
  bcrypt_hash :: "jsval \<Rightarrow> jstring \<Rightarrow> exn + jstring"
  bcrypt_compare :: "jsval \<Rightarrow> jsval \<Rightarrow> exn + bool"


section \<open>The handlers\<close>

datatype rbody =
    RegistrationSuccess
  | LoginSuccess
  | UserUpdated
  | UserDeleted
  | ValidationError "verror list"
  | EmailAlreadyExist
  | MissingCredentials
  | EmailNotFound
  | InvalidPassword
  | UserNotFound
  | InternalServerError
  | UserList "obj list"

record response =
  status :: nat
  rbody :: rbody

definition respond :: "nat \<Rightarrow> rbody \<Rightarrow> response" where
  "respond n b = \<lparr>status = n, rbody = b\<rparr>"

text \<open>The \<open>catch\<close> block of every handler.\<close>

definition internal_error :: response where
  "internal_error = respond 500 InternalServerError"

text \<open>
  \<open>registerUser\<close> up to and including the existence check: either the handler has
  responded (\<open>Inl\<close>), or the body goes on to be hashed and stored (\<open>Inr\<close>).
\<close>

definition register_check :: "kv \<Rightarrow> jsval \<Rightarrow> response + jsval" where
  "register_check st body =
     (case validateUserData body of
        Inl e \<Rightarrow> Inl internal_error
      | Inr errors \<Rightarrow>
          if length errors > 0 then Inl (respond 400 (ValidationError errors))
          else (case kv_get st (get_prop body (js ''email'')) of
                  Inl e \<Rightarrow> Inl internal_error
                | Inr existingUser \<Rightarrow>
                    (case existingUser of
                       Some u \<Rightarrow> Inl (respond 400 EmailAlreadyExist)
                     | None \<Rightarrow> Inr body)))"

text \<open>The object that \<open>registerUser\<close> hands to \<open>kv.set\<close>.\<close>

definition new_record :: "jsval \<Rightarrow> jstring \<Rightarrow> obj" where
  "new_record body hashedPwd =
     [(js ''firstName'', get_prop body (js ''firstName'')),
      (js ''lastName'', get_prop body (js ''lastName'')),
      (js ''email'', get_prop body (js ''email'')),
      (js ''password'', Str hashedPwd),
      (js ''phone'', get_prop body (js ''phone'')),
      (js ''address'', get_prop body (js ''address''))]"

text \<open>\<open>registerUser\<close> from the hashing on: \<open>bcrypt.hash\<close>, then \<open>kv.set\<close>.\<close>

definition register_write :: "deps \<Rightarrow> jstring \<Rightarrow> kv \<Rightarrow> jsval \<Rightarrow> response \<times> kv" where
  "register_write d salt st body =
     (case bcrypt_hash d (get_prop body (js ''password'')) salt of
        Inl e \<Rightarrow> (internal_error, st)
      | Inr hashedPwd \<Rightarrow>
          (case kv_set st (get_prop body (js ''email'')) (new_record body hashedPwd) of
             Inl e \<Rightarrow> (internal_error, st)
           | Inr st' \<Rightarrow> (respond 200 RegistrationSuccess, st')))"

definition registerUser :: "deps \<Rightarrow> jstring \<Rightarrow> kv \<Rightarrow> jsval \<Rightarrow> response \<times> kv" where
  "registerUser d salt st body =
     (case register_check st body of
        Inl r \<Rightarrow> (r, st)
      | Inr b \<Rightarrow> register_write d salt st b)"

definition loginUser :: "deps \<Rightarrow> kv \<Rightarrow> jsval \<Rightarrow> response \<times> kv" where
  "loginUser d st body =
     (if nullish body then (internal_error, st)
      else
        let email = get_prop body (js ''email''); password = get_prop body (js ''password'') in
        if \<not> truthy email \<or> \<not> truthy password then (respond 400 MissingCredentials, st)
        else (case kv_get st email of
                Inl e \<Rightarrow> (internal_error, st)
              | Inr None \<Rightarrow> (respond 404 EmailNotFound, st)
              | Inr (Some user) \<Rightarrow>
                  (case bcrypt_compare d password (get_prop (Obj user) (js ''password'')) of
                     Inl e \<Rightarrow> (internal_error, st)
                   | Inr validPswd \<Rightarrow>
                       if \<not> validPswd then (respond 401 InvalidPassword, st)
                       else (respond 200 LoginSuccess, st))))"

text \<open>
  The loop of \<open>getAllUsers\<close>: \<open>const { password, ...rest } = entry.value\<close> copies every
  property but \<open>password\<close>; \<open>rest\<close> is pushed onto \<open>allUsers\<close>.
\<close>

fun collect :: "(jsval \<times> obj) list \<Rightarrow> obj list \<Rightarrow> obj list" where
  "collect [] allUsers = allUsers"
| "collect (entry # entries) allUsers =
     collect entries (allUsers @ [AList.delete (js ''password'') (snd entry)])"

definition getAllUsers :: "kv \<Rightarrow> response \<times> kv" where
  "getAllUsers st = (respond 200 (UserList (collect (kv_list st) [])), st)"

text \<open>\<open>if (typeof v === "string" && v.trim()) updated.k = v\<close>\<close>

definition merge_field :: "jstring \<Rightarrow> jsval \<Rightarrow> obj \<Rightarrow> obj" where
  "merge_field k body updated =
     (if is_str (get_prop body k) \<and> truthy (Str (trim (str_of (get_prop body k))))
      then AList.update k (get_prop body k) updated else updated)"

text \<open>The four blocks for firstName, lastName, phone and address, in the order of the source.\<close>

definition merge_fields :: "jsval \<Rightarrow> obj \<Rightarrow> obj" where
  "merge_fields body updated =
     merge_field (js ''address'') body
       (merge_field (js ''phone'') body
         (merge_field (js ''lastName'') body
           (merge_field (js ''firstName'') body updated)))"

text \<open>The password block of \<open>updateUser\<close>.\<close>

definition merge_password :: "deps \<Rightarrow> jstring \<Rightarrow> jsval \<Rightarrow> obj \<Rightarrow> exn + obj" where
  "merge_password d salt body updated =
     (let password = get_prop body (js ''password'') in
      if is_str password \<and> length (str_of password) \<ge> 6
      then (case bcrypt_hash d password salt of
              Inl e \<Rightarrow> Inl e
            | Inr newHashedPwd \<Rightarrow> Inr (AList.update (js ''password'') (Str newHashedPwd) updated))
      else Inr updated)"

definition updateUser :: "deps \<Rightarrow> jstring \<Rightarrow> kv \<Rightarrow> jstring \<Rightarrow> jsval \<Rightarrow> response \<times> kv" where
  "updateUser d salt st emailParam body =
     (case kv_get st (Str emailParam) of
        Inl e \<Rightarrow> (internal_error, st)
      | Inr None \<Rightarrow> (respond 404 UserNotFound, st)
      | Inr (Some user) \<Rightarrow>
          if nullish body then (internal_error, st)
          else
            (case merge_password d salt body (merge_fields body user) of
               Inl e \<Rightarrow> (internal_error, st)
             | Inr updated \<Rightarrow>
                 (case kv_set st (Str emailParam) updated of
                    Inl e \<Rightarrow> (internal_error, st)
                  | Inr st' \<Rightarrow> (respond 200 UserUpdated, st'))))"

definition deleteUser :: "kv \<Rightarrow> jstring \<Rightarrow> response \<times> kv" where
  "deleteUser st emailParam =
     (case kv_get st (Str emailParam) of
        Inl e \<Rightarrow> (internal_error, st)
      | Inr None \<Rightarrow> (respond 404 UserNotFound, st)
      | Inr (Some user) \<Rightarrow>
          (case kv_delete st (Str emailParam) of
             Inl e \<Rightarrow> (internal_error, st)
           | Inr st' \<Rightarrow> (respond 200 UserDeleted, st')))"


section \<open>Requests one after the other\<close>

text \<open>
  A request together with the salt that \<open>v4.generate()\<close> returns while it is handled. A
  store is reachable when some sequence of requests, each handled to its end before the next
  begins, leads to it from the empty store.
\<close>

datatype request =
    Register jsval
  | Login jsval
  | ListUsers
  | Update jstring jsval
  | Delete jstring

fun handle :: "deps \<Rightarrow> jstring \<Rightarrow> kv \<Rightarrow> request \<Rightarrow> response \<times> kv" where
  "handle d salt st (Register body) = registerUser d salt st body"
| "handle d salt st (Login body) = loginUser d st body"
| "handle d salt st ListUsers = getAllUsers st"
| "handle d salt st (Update emailParam body) = updateUser d salt st emailParam body"
| "handle d salt st (Delete emailParam) = deleteUser st emailParam"

inductive reachable :: "deps \<Rightarrow> kv \<Rightarrow> bool" for d :: deps where
  initial: "reachable d []"
| request: "reachable d st \<Longrightarrow> handle d salt st req = (resp, st') \<Longrightarrow> reachable d st'"


section \<open>Two registrations at once\<close>

text \<open>
  Every \<open>await\<close> of \<open>registerUser\<close> is a point where another request may run. In this
  schedule both registrations pass \<open>kv.get\<close> on the same store before either reaches
  \<open>kv.set\<close>; the first then writes, and the second writes onto the result. A registration
  that has responded at its check does not write.
\<close>

definition register_race ::
  "deps \<Rightarrow> jstring \<Rightarrow> jstring \<Rightarrow> kv \<Rightarrow> jsval \<Rightarrow> jsval \<Rightarrow> (response \<times> response) \<times> kv" where
  "register_race d salt1 salt2 st body1 body2 =
     (let check1 = register_check st body1;
          check2 = register_check st body2;
          (resp1, st1) = (case check1 of Inl r \<Rightarrow> (r, st) | Inr b \<Rightarrow> register_write d salt1 st b);
          (resp2, st2) = (case check2 of Inl r \<Rightarrow> (r, st1) | Inr b \<Rightarrow> register_write d salt2 st1 b)
      in ((resp1, resp2), st2))"


section \<open>The rules of the specification\<close>

text \<open>
  The field rules as the specification words them. firstName, lastName, address: present,
  of string type, non-empty after trimming.
\<close>

fun spec_text_ok :: "jsval \<Rightarrow> bool" where
  "spec_text_ok (Str s) = (trim s \<noteq> [])"
| "spec_text_ok v = False"

text \<open>email: present, of string type, matching the email expression.\<close>

fun spec_email_ok :: "jsval \<Rightarrow> bool" where
  "spec_email_ok (Str s) = rx_test emailRegex s"
| "spec_email_ok v = False"

text \<open>password: present, of string type, of length at least 6.\<close>

fun spec_password_ok :: "jsval \<Rightarrow> bool" where
  "spec_password_ok (Str s) = (6 \<le> length s)"
| "spec_password_ok v = False"

text \<open>phone: present, of string type, of length at least 7, matching the phone expression.\<close>

fun spec_phone_ok :: "jsval \<Rightarrow> bool" where
  "spec_phone_ok (Str s) = (7 \<le> length s \<and> rx_test phoneRegex s)"
| "spec_phone_ok v = False"

text \<open>How many of the six field rules a body violates.\<close>

definition violations :: "jsval \<Rightarrow> nat" where
  "violations data =
     length (filter Not
       [spec_text_ok (get_prop data (js ''firstName'')),
        spec_text_ok (get_prop data (js ''lastName'')),
        spec_email_ok (get_prop data (js ''email'')),
        spec_password_ok (get_prop data (js ''password'')),
        spec_phone_ok (get_prop data (js ''phone'')),
        spec_text_ok (get_prop data (js ''address''))])"

text \<open>The constraints of the data model on a stored record.\<close>

definition record_ok :: "obj \<Rightarrow> bool" where
  "record_ok u \<longleftrightarrow>
     spec_text_ok (get_prop (Obj u) (js ''firstName'')) \<and>
     spec_text_ok (get_prop (Obj u) (js ''lastName'')) \<and>
     spec_text_ok (get_prop (Obj u) (js ''address'')) \<and>
     spec_phone_ok (get_prop (Obj u) (js ''phone''))"

text \<open>The same with the phone only required to be a string that is non-empty after trimming.\<close>

definition record_filled :: "obj \<Rightarrow> bool" where
  "record_filled u \<longleftrightarrow>
     spec_text_ok (get_prop (Obj u) (js ''firstName'')) \<and>
     spec_text_ok (get_prop (Obj u) (js ''lastName'')) \<and>
     spec_text_ok (get_prop (Obj u) (js ''address'')) \<and>
     spec_text_ok (get_prop (Obj u) (js ''phone''))"

text \<open>
  One record for each key, and each record filed under its own email.
\<close>

definition store_inv :: "kv \<Rightarrow> bool" where
  "store_inv st \<longleftrightarrow>
     distinct (map fst st) \<and>
     (\<forall>entry \<in> set st. get_prop (Obj (snd entry)) (js ''email'') = fst entry)"

text \<open>
  Modelled from the spec: \<open>verify\<close> of the Credential Hasher, which the handlers reach as
  \<open>bcrypt.compare\<close>; the library's code is not among the sources. The digest encodes cost,
  salt and hash output; \<open>parse\<close> reads them back and gives \<open>None\<close> for a malformed digest,
  \<open>kdf\<close> is the salted one-way function. \<open>verify\<close> recomputes the hash with the embedded
  salt and cost and compares; a malformed digest is a failed verification.
\<close>

definition verify ::
  "(jstring \<Rightarrow> (nat \<times> jstring \<times> jstring) option) \<Rightarrow> (nat \<Rightarrow> jstring \<Rightarrow> jstring \<Rightarrow> jstring) \<Rightarrow>
   jstring \<Rightarrow> jstring \<Rightarrow> bool" where
  "verify parse kdf plaintext digest =
     (case parse digest of
        None \<Rightarrow> False
      | Some (cost, salt, out) \<Rightarrow> kdf cost salt plaintext = out)"


section \<open>Concrete values\<close>

text \<open>
  A stand-in for the library, to run the handlers on concrete requests: the digest is the salt,
  a \<open>$\<close> and the output, and the output is the plaintext itself.
\<close>

definition demo_kdf :: "nat \<Rightarrow> jstring \<Rightarrow> jstring \<Rightarrow> jstring" where
  "demo_kdf cost salt plaintext = plaintext"

definition demo_parse :: "jstring \<Rightarrow> (nat \<times> jstring \<times> jstring) option" where
  "demo_parse digest =
     (if 36 \<in> set digest
      then Some (0, takeWhile (\<lambda>c. c \<noteq> 36) digest, tl (dropWhile (\<lambda>c. c \<noteq> 36) digest))
      else None)"

definition demo_hash :: "jsval \<Rightarrow> jstring \<Rightarrow> exn + jstring" where
  "demo_hash plaintext salt =
     (case plaintext of Str p \<Rightarrow> Inr (salt @ [36] @ demo_kdf 0 salt p) | _ \<Rightarrow> Inl Rejected)"

definition demo_compare :: "jsval \<Rightarrow> jsval \<Rightarrow> exn + bool" where
  "demo_compare plaintext digest =
     (case plaintext of
        Str p \<Rightarrow> (case digest of Str h \<Rightarrow> Inr (verify demo_parse demo_kdf p h) | _ \<Rightarrow> Inl Rejected)
      | _ \<Rightarrow> Inl Rejected)"

definition demo :: deps where
  "demo = \<lparr>bcrypt_hash = demo_hash, bcrypt_compare = demo_compare\<rparr>"

text \<open>The registration of the specification's example, and a second one for the same email.\<close>

definition ann :: jsval where
  "ann = Obj [(js ''firstName'', Str (js ''A'')), (js ''lastName'', Str (js ''B'')),
              (js ''email'', Str (js ''a@b.com'')), (js ''password'', Str (js ''secret1'')),
              (js ''phone'', Str (js ''+998900000000'')), (js ''address'', Str (js ''X''))]"

definition bob :: jsval where
  "bob = Obj [(js ''firstName'', Str (js ''C'')), (js ''lastName'', Str (js ''D'')),
              (js ''email'', Str (js ''a@b.com'')), (js ''password'', Str (js ''hunter2'')),
              (js ''phone'', Str (js ''+998900000001'')), (js ''address'', Str (js ''Y''))]"

text \<open>The record that registering \<open>ann\<close> with salt \<open>s1\<close> stores under the stand-in library.\<close>

definition ann_record :: obj where
  "ann_record =
     [(js ''firstName'', Str (js ''A'')), (js ''lastName'', Str (js ''B'')),
      (js ''email'', Str (js ''a@b.com'')), (js ''password'', Str (js ''s1$secret1'')),
      (js ''phone'', Str (js ''+998900000000'')), (js ''address'', Str (js ''X''))]"

definition ann_store :: kv where
  "ann_store = [(Str (js ''a@b.com''), ann_record)]"

text \<open>The record that registering \<open>bob\<close> with salt \<open>s2\<close> stores under the stand-in library.\<close>

definition bob_record :: obj where
  "bob_record =
     [(js ''firstName'', Str (js ''C'')), (js ''lastName'', Str (js ''D'')),
      (js ''email'', Str (js ''a@b.com'')), (js ''password'', Str (js ''s2$hunter2'')),
      (js ''phone'', Str (js ''+998900000001'')), (js ''address'', Str (js ''Y''))]"

text \<open>A body that breaks five of the six rules.\<close>

definition mixed :: jsval where
  "mixed = Obj [(js ''firstName'', Str (js ''A'')), (js ''email'', Str (js ''a@b'')),
                (js ''password'', Str (js ''abc'')), (js ''phone'', Str (js ''+99890000000x'')),
                (js ''address'', Str (js ''  ''))]"

text \<open>What \<open>GET /users\<close> shows of \<open>ann_record\<close>.\<close>

definition ann_public :: obj where
  "ann_public =
     [(js ''firstName'', Str (js ''A'')), (js ''lastName'', Str (js ''B'')),
      (js ''email'', Str (js ''a@b.com'')),
      (js ''phone'', Str (js ''+998900000000'')), (js ''address'', Str (js ''X''))]"


section \<open>Strings and property names\<close>

lemma of_char_cu_inj: "(of_char a :: cu) = of_char b \<longleftrightarrow> a = b"
proof
  assume h: "(of_char a :: cu) = of_char b"
  have "\<And>c. unat (of_char c :: cu) = of_char c"
  proof -
    fix c :: char
    have "(of_char c :: nat) < 65536" using nat_of_char_less_256 [of c] by linarith
    then have "(of_char c :: nat) mod 65536 = of_char c" by (rule mod_less)
    then have "unat (of_nat (of_char c) :: cu) = of_char c"
      by (simp add: unat_of_nat)
    then show "unat (of_char c :: cu) = of_char c" by (simp add: of_nat_of_char)
  qed
  with h have "(of_char a :: nat) = of_char b" by metis
  then show "a = b" by simp
qed simp

lemma js_eq_iff [simp]: "js a = js b \<longleftrightarrow> a = b"
  unfolding js_def by (simp add: inj_map_eq_map inj_on_def of_char_cu_inj)

lemma trim_Nil [simp]: "trim [] = []"
  by (simp add: trim_def)

lemma no_empty_email [simp]: "\<not> nullable emailRegex"
  by (simp add: emailRegex_def Plus_def)


section \<open>The validator against the rules\<close>

lemma blank_iff: "blank v \<longleftrightarrow> \<not> spec_text_ok v"
  by (cases v) (auto simp add: blank_def)

lemma check_firstName_eq:
  "check_firstName data =
     (if spec_text_ok (get_prop data (js ''firstName'')) then [] else [FirstNameEmpty])"
  by (simp add: check_firstName_def blank_iff)

lemma check_lastName_eq:
  "check_lastName data =
     (if spec_text_ok (get_prop data (js ''lastName'')) then [] else [LastNameEmpty])"
  by (simp add: check_lastName_def blank_iff)

lemma check_address_eq:
  "check_address data =
     (if spec_text_ok (get_prop data (js ''address'')) then [] else [AddressEmpty])"
  by (simp add: check_address_def blank_iff)

lemma check_password_eq:
  "check_password data =
     (if spec_password_ok (get_prop data (js ''password'')) then [] else [PasswordShort])"
  by (cases "get_prop data (js ''password'')") (auto simp add: check_password_def Let_def)

lemma check_email_eq:
  "check_email data =
     (if spec_email_ok (get_prop data (js ''email'')) then []
      else if truthy (get_prop data (js ''email'')) \<and> is_str (get_prop data (js ''email''))
           then [EmailFormat] else [EmailMissing])"
  by (cases "get_prop data (js ''email'')") (auto simp add: check_email_def Let_def)

lemma check_phone_eq:
  "check_phone data =
     (if spec_phone_ok (get_prop data (js ''phone'')) then []
      else if is_str (get_prop data (js ''phone'')) \<and> 7 \<le> length (str_of (get_prop data (js ''phone'')))
           then [PhoneFormat] else [PhoneShort])"
  by (cases "get_prop data (js ''phone'')") (auto simp add: check_phone_def Let_def)

lemmas check_eqs =
  check_firstName_eq check_lastName_eq check_email_eq check_password_eq check_phone_eq
  check_address_eq

lemma validate_nil_iff:
  "validateUserData data = Inr [] \<longleftrightarrow>
     \<not> nullish data \<and>
     spec_text_ok (get_prop data (js ''firstName'')) \<and>
     spec_text_ok (get_prop data (js ''lastName'')) \<and>
     spec_email_ok (get_prop data (js ''email'')) \<and>
     spec_password_ok (get_prop data (js ''password'')) \<and>
     spec_phone_ok (get_prop data (js ''phone'')) \<and>
     spec_text_ok (get_prop data (js ''address''))"
  by (simp add: validateUserData_def check_eqs)

text \<open>
  C7. For a body that is not \<open>null\<close> or \<open>undefined\<close>, \<open>validateUserData\<close> returns a list of
  errors. The list is empty exactly when every field rule of the specification holds; each
  field's message is in the list exactly when that field's rule is violated, whatever the
  other fields are; and the list has one message for each violated rule.
\<close>

theorem validate_rules:
  assumes "\<not> nullish data"
  shows "\<exists>errors. validateUserData data = Inr errors \<and>
     (errors = [] \<longleftrightarrow>
        spec_text_ok (get_prop data (js ''firstName'')) \<and>
        spec_text_ok (get_prop data (js ''lastName'')) \<and>
        spec_email_ok (get_prop data (js ''email'')) \<and>
        spec_password_ok (get_prop data (js ''password'')) \<and>
        spec_phone_ok (get_prop data (js ''phone'')) \<and>
        spec_text_ok (get_prop data (js ''address''))) \<and>
     (FirstNameEmpty \<in> set errors \<longleftrightarrow> \<not> spec_text_ok (get_prop data (js ''firstName''))) \<and>
     (LastNameEmpty \<in> set errors \<longleftrightarrow> \<not> spec_text_ok (get_prop data (js ''lastName''))) \<and>
     (EmailMissing \<in> set errors \<or> EmailFormat \<in> set errors \<longleftrightarrow>
        \<not> spec_email_ok (get_prop data (js ''email''))) \<and>
     (PasswordShort \<in> set errors \<longleftrightarrow> \<not> spec_password_ok (get_prop data (js ''password''))) \<and>
     (PhoneShort \<in> set errors \<or> PhoneFormat \<in> set errors \<longleftrightarrow>
        \<not> spec_phone_ok (get_prop data (js ''phone''))) \<and>
     (AddressEmpty \<in> set errors \<longleftrightarrow> \<not> spec_text_ok (get_prop data (js ''address''))) \<and>
     length errors = violations data"
proof -
  define errors where
    "errors = check_firstName data @ check_lastName data @ check_email data @
              check_password data @ check_phone data @ check_address data"
  have run: "validateUserData data = Inr errors"
    using assms by (simp add: validateUserData_def errors_def)
  have empty: "errors = [] \<longleftrightarrow>
        spec_text_ok (get_prop data (js ''firstName'')) \<and>
        spec_text_ok (get_prop data (js ''lastName'')) \<and>
        spec_email_ok (get_prop data (js ''email'')) \<and>
        spec_password_ok (get_prop data (js ''password'')) \<and>
        spec_phone_ok (get_prop data (js ''phone'')) \<and>
        spec_text_ok (get_prop data (js ''address''))"
    using run validate_nil_iff [of data] assms by simp
  have fn: "FirstNameEmpty \<in> set errors \<longleftrightarrow> \<not> spec_text_ok (get_prop data (js ''firstName''))"
    by (simp add: errors_def check_eqs)
  have ln: "LastNameEmpty \<in> set errors \<longleftrightarrow> \<not> spec_text_ok (get_prop data (js ''lastName''))"
    by (simp add: errors_def check_eqs)
  have em: "EmailMissing \<in> set errors \<or> EmailFormat \<in> set errors \<longleftrightarrow>
        \<not> spec_email_ok (get_prop data (js ''email''))"
    by (simp add: errors_def check_eqs)
  have pw: "PasswordShort \<in> set errors \<longleftrightarrow> \<not> spec_password_ok (get_prop data (js ''password''))"
    by (simp add: errors_def check_eqs)
  have ph: "PhoneShort \<in> set errors \<or> PhoneFormat \<in> set errors \<longleftrightarrow>
        \<not> spec_phone_ok (get_prop data (js ''phone''))"
    by (simp add: errors_def check_eqs)
  have ad: "AddressEmpty \<in> set errors \<longleftrightarrow> \<not> spec_text_ok (get_prop data (js ''address''))"
    by (simp add: errors_def check_eqs)
  have len: "length errors = violations data"
    by (simp add: errors_def violations_def check_eqs)
  from run empty fn ln em pw ph ad len show ?thesis by blast
qed

lemma mixed_fields:
  "get_prop mixed (js ''firstName'') = Str (js ''A'')"
  "get_prop mixed (js ''lastName'') = Undefined"
  "get_prop mixed (js ''email'') = Str (js ''a@b'')"
  "get_prop mixed (js ''password'') = Str (js ''abc'')"
  "get_prop mixed (js ''phone'') = Str (js ''+99890000000x'')"
  "get_prop mixed (js ''address'') = Str (js ''  '')"
  by (simp_all add: mixed_def)

lemma mixed_errors:
  "validateUserData mixed =
     Inr [LastNameEmpty, EmailFormat, PasswordShort, PhoneFormat, AddressEmpty]"
proof -
  have "check_firstName mixed = []"
    unfolding check_firstName_eq mixed_fields by (simp add: js_def trim_def is_ws_def)
  moreover have "check_lastName mixed = [LastNameEmpty]"
    unfolding check_lastName_eq mixed_fields by simp
  moreover have "check_email mixed = [EmailFormat]"
    unfolding check_email_def mixed_fields
    by (simp add: js_def emailRegex_def Plus_def not_at_ws_def is_ws_def)
  moreover have "check_password mixed = [PasswordShort]"
    unfolding check_password_def mixed_fields by (simp add: js_def)
  moreover have "check_phone mixed = [PhoneFormat]"
    unfolding check_phone_def mixed_fields
    by (simp add: js_def phoneRegex_def Plus_def plus_or_digit_def)
  moreover have "check_address mixed = [AddressEmpty]"
    unfolding check_address_eq mixed_fields by (simp add: js_def trim_def is_ws_def)
  ultimately show ?thesis by (simp add: validateUserData_def mixed_def)
qed

theorem validate_rules_witness:
  "\<not> nullish mixed \<and>
   validateUserData mixed = Inr [LastNameEmpty, EmailFormat, PasswordShort, PhoneFormat, AddressEmpty] \<and>
   violations mixed = 5 \<and>
   \<not> spec_text_ok (get_prop mixed (js ''address''))"
proof -
  have h: "\<not> nullish mixed" by (simp add: mixed_def)
  from validate_rules [OF h] obtain errors where
    run: "validateUserData mixed = Inr errors" and
    len: "length errors = violations mixed" and
    ad: "AddressEmpty \<in> set errors \<longleftrightarrow> \<not> spec_text_ok (get_prop mixed (js ''address''))"
    by blast
  from run have "errors = [LastNameEmpty, EmailFormat, PasswordShort, PhoneFormat, AddressEmpty]"
    by (simp add: mixed_errors)
  with h run len ad show ?thesis by simp
qed


section \<open>The store and the list of users\<close>

lemma collect_map:
  "collect es acc = acc @ map (\<lambda>entry. AList.delete (js ''password'') (snd entry)) es"
  by (induction es arbitrary: acc) simp_all

lemma kv_get_Str [simp]: "kv_get st (Str e) = Inr (map_of st (Str e))"
  by (simp add: kv_get_def)

lemma kv_get_Some_key: "kv_get st k = Inr r \<Longrightarrow> key_part k \<and> r = map_of st k"
  by (auto simp add: kv_get_def split: if_splits)

lemma delete_no_key: "k \<notin> fst ` set (AList.delete k al)"
  by (induction al) auto

lemma get_prop_delete:
  "get_prop (Obj (AList.delete k al)) k' = (if k' = k then Undefined else get_prop (Obj al) k')"
  by (simp add: AList.delete_conv')

text \<open>
  C4. For every store, \<open>getAllUsers\<close> responds 200 with one object for each stored record,
  in the order of the enumeration. None of these objects has a \<open>password\<close> property, and
  every other property reads the same in the output as in the stored record.
\<close>

theorem list_strips_password:
  "\<exists>allUsers. getAllUsers st = (respond 200 (UserList allUsers), st) \<and>
     length allUsers = length (kv_list st) \<and>
     (\<forall>i < length allUsers.
        js ''password'' \<notin> fst ` set (allUsers ! i) \<and>
        get_prop (Obj (allUsers ! i)) (js ''password'') = Undefined \<and>
        (\<forall>k. k \<noteq> js ''password'' \<longrightarrow>
           get_prop (Obj (allUsers ! i)) k = get_prop (Obj (snd (kv_list st ! i))) k))"
proof -
  let ?out = "map (\<lambda>entry. AList.delete (js ''password'') (snd entry)) (kv_list st)"
  have run: "getAllUsers st = (respond 200 (UserList ?out), st)"
    by (simp add: getAllUsers_def collect_map)
  have each: "\<forall>i < length ?out.
        js ''password'' \<notin> fst ` set (?out ! i) \<and>
        get_prop (Obj (?out ! i)) (js ''password'') = Undefined \<and>
        (\<forall>k. k \<noteq> js ''password'' \<longrightarrow>
           get_prop (Obj (?out ! i)) k = get_prop (Obj (snd (kv_list st ! i))) k)"
    by (simp add: delete_no_key get_prop_delete del: get_prop.simps)
  from run each show ?thesis by (intro exI [of _ ?out]) simp
qed

theorem list_strips_password_witness:
  "getAllUsers ann_store = (respond 200 (UserList [ann_public]), ann_store) \<and>
   js ''password'' \<notin> fst ` set ann_public \<and>
   get_prop (Obj ann_public) (js ''phone'') = get_prop (Obj ann_record) (js ''phone'')"
proof -
  from list_strips_password [of ann_store] obtain allUsers where
    run: "getAllUsers ann_store = (respond 200 (UserList allUsers), ann_store)" and
    each: "\<forall>i < length allUsers.
        js ''password'' \<notin> fst ` set (allUsers ! i) \<and>
        (\<forall>k. k \<noteq> js ''password'' \<longrightarrow>
           get_prop (Obj (allUsers ! i)) k = get_prop (Obj (snd (kv_list ann_store ! i))) k)"
    by blast
  have "getAllUsers ann_store = (respond 200 (UserList [ann_public]), ann_store)"
    by (simp add: getAllUsers_def kv_list_def ann_store_def ann_record_def ann_public_def)
  with run have out: "allUsers = [ann_public]" by (simp add: respond_def)
  from each out have "js ''password'' \<notin> fst ` set ann_public \<and>
        (\<forall>k. k \<noteq> js ''password'' \<longrightarrow>
           get_prop (Obj ann_public) k = get_prop (Obj (snd (kv_list ann_store ! 0))) k)"
    by simp
  moreover have "snd (kv_list ann_store ! 0) = ann_record"
    by (simp add: kv_list_def ann_store_def)
  ultimately show ?thesis using run out by simp
qed


section \<open>Requests for an email that has no record\<close>

lemma update_absent_404:
  "map_of st (Str e) = None \<Longrightarrow> updateUser d salt st e body = (respond 404 UserNotFound, st)"
  by (simp add: updateUser_def)

lemma delete_absent_404:
  "map_of st (Str e) = None \<Longrightarrow> deleteUser st e = (respond 404 UserNotFound, st)"
  by (simp add: deleteUser_def)

lemma delete_result:
  "deleteUser st0 e = (r, st) \<Longrightarrow> status r = 200 \<Longrightarrow> map_of st (Str e) = None"
  by (auto simp add: deleteUser_def kv_delete_def respond_def internal_error_def AList.delete_conv'
      split: option.splits)

lemma login_absent_404:
  "map_of st (Str e) = None \<Longrightarrow> get_prop body (js ''email'') = Str e \<Longrightarrow> e \<noteq> [] \<Longrightarrow>
   truthy (get_prop body (js ''password'')) \<Longrightarrow>
   loginUser d st body = (respond 404 EmailNotFound, st)"
  by (cases body) (simp_all add: loginUser_def Let_def)

text \<open>
  C6. When an email has no stored record, be it that none was ever stored or that a delete of
  it has just succeeded, reading the key finds nothing, \<open>updateUser\<close> responds 404 and
  leaves the store as it is (no record is created), \<open>deleteUser\<close> responds 404, and a
  login with that email responds 404.
\<close>

theorem absent_email_not_found:
  assumes "kv_get st (Str e) = Inr None \<or> (\<exists>st0 r. deleteUser st0 e = (r, st) \<and> status r = 200)"
  shows "kv_get st (Str e) = Inr None \<and>
         updateUser d salt st e body = (respond 404 UserNotFound, st) \<and>
         deleteUser st e = (respond 404 UserNotFound, st) \<and>
         (get_prop login (js ''email'') = Str e \<and> e \<noteq> [] \<and> truthy (get_prop login (js ''password''))
            \<longrightarrow> loginUser d st login = (respond 404 EmailNotFound, st))"
proof -
  from assms have none: "map_of st (Str e) = None"
    by (auto dest: delete_result)
  then show ?thesis
    by (simp add: update_absent_404 delete_absent_404 login_absent_404)
qed

theorem absent_email_not_found_witness:
  "deleteUser ann_store (js ''a@b.com'') = (respond 200 UserDeleted, []) \<and>
   kv_get [] (Str (js ''a@b.com'')) = Inr None \<and>
   updateUser demo (js ''s2'') [] (js ''a@b.com'') ann = (respond 404 UserNotFound, []) \<and>
   deleteUser [] (js ''a@b.com'') = (respond 404 UserNotFound, []) \<and>
   loginUser demo [] ann = (respond 404 EmailNotFound, [])"
proof -
  have del: "deleteUser ann_store (js ''a@b.com'') = (respond 200 UserDeleted, [])"
    by (simp add: deleteUser_def ann_store_def kv_delete_def)
  then have "\<exists>st0 r. deleteUser st0 (js ''a@b.com'') = (r, []) \<and> status r = 200"
    by (intro exI [of _ ann_store] exI [of _ "respond 200 UserDeleted"]) (simp add: respond_def)
  then have hyp: "kv_get [] (Str (js ''a@b.com'')) = Inr None \<or>
      (\<exists>st0 r. deleteUser st0 (js ''a@b.com'') = (r, []) \<and> status r = 200)" ..
  have login: "get_prop ann (js ''email'') = Str (js ''a@b.com'') \<and> js ''a@b.com'' \<noteq> [] \<and>
      truthy (get_prop ann (js ''password''))"
    by (simp add: ann_def js_def)
  from absent_email_not_found [OF hyp, of demo "js ''s2''" ann ann] del login
  show ?thesis by simp
qed


section \<open>Registration and login\<close>

lemma valid_email:
  assumes "validateUserData body = Inr []"
  obtains e where "get_prop body (js ''email'') = Str e" "e \<noteq> []" "rx_test emailRegex e"
proof -
  from assms have ok: "spec_email_ok (get_prop body (js ''email''))"
    by (simp add: validate_nil_iff)
  then obtain e where e: "get_prop body (js ''email'') = Str e"
    by (cases "get_prop body (js ''email'')") simp_all
  with ok have "rx_test emailRegex e" by simp
  moreover from this have "e \<noteq> []" by auto
  ultimately show ?thesis using e that by blast
qed

lemma valid_password:
  assumes "validateUserData body = Inr []"
  obtains p where "get_prop body (js ''password'') = Str p" "6 \<le> length p"
proof -
  from assms have ok: "spec_password_ok (get_prop body (js ''password''))"
    by (simp add: validate_nil_iff)
  then obtain p where p: "get_prop body (js ''password'') = Str p"
    by (cases "get_prop body (js ''password'')") simp_all
  with ok have "6 \<le> length p" by simp
  with p that show ?thesis by blast
qed

lemma register_check_pass:
  assumes "validateUserData body = Inr []" "kv_get st (get_prop body (js ''email'')) = Inr None"
  shows "register_check st body = Inr body"
  using assms by (simp add: register_check_def)

lemma register_check_conflict:
  assumes "validateUserData body = Inr []" "kv_get st (get_prop body (js ''email'')) = Inr (Some u)"
  shows "register_check st body = Inl (respond 400 EmailAlreadyExist)"
  using assms by (simp add: register_check_def)

lemma register_write_ok:
  assumes "get_prop body (js ''email'') = Str e"
    and "bcrypt_hash d (get_prop body (js ''password'')) salt = Inr hashedPwd"
  shows "register_write d salt st body =
           (respond 200 RegistrationSuccess, AList.update (Str e) (new_record body hashedPwd) st)"
  using assms by (simp add: register_write_def kv_set_def new_record_def)

lemma new_record_password [simp]:
  "get_prop (Obj (new_record body hashedPwd)) (js ''password'') = Str hashedPwd"
  by (simp add: new_record_def)

text \<open>
  C1. When a registration body passes validation and its email has no stored record, and the
  library hashes the password and confirms the password against the digest it has just
  produced, \<open>registerUser\<close> responds 200 and stores the record under the email, and a
  login that follows with the same email and password responds 200.
\<close>

theorem register_then_login:
  assumes valid: "validateUserData body = Inr []"
    and fresh: "kv_get st (get_prop body (js ''email'')) = Inr None"
    and hash: "bcrypt_hash d (get_prop body (js ''password'')) salt = Inr hashedPwd"
    and verify: "bcrypt_compare d (get_prop body (js ''password'')) (Str hashedPwd) = Inr True"
    and login: "\<not> nullish login"
      "get_prop login (js ''email'') = get_prop body (js ''email'')"
      "get_prop login (js ''password'') = get_prop body (js ''password'')"
  shows "\<exists>st'. registerUser d salt st body = (respond 200 RegistrationSuccess, st') \<and>
           kv_get st' (get_prop body (js ''email'')) = Inr (Some (new_record body hashedPwd)) \<and>
           loginUser d st' login = (respond 200 LoginSuccess, st')"
proof -
  from valid obtain e where e: "get_prop body (js ''email'') = Str e" "e \<noteq> []"
    by (rule valid_email)
  from valid obtain p where p: "get_prop body (js ''password'') = Str p" "6 \<le> length p"
    by (rule valid_password)
  let ?st' = "AList.update (Str e) (new_record body hashedPwd) st"
  have reg: "registerUser d salt st body = (respond 200 RegistrationSuccess, ?st')"
    using register_check_pass [OF valid fresh] register_write_ok [OF e(1) hash]
    by (simp add: registerUser_def)
  have stored: "kv_get ?st' (get_prop body (js ''email'')) = Inr (Some (new_record body hashedPwd))"
    by (simp add: e update_conv')
  from p have "p \<noteq> []" by auto
  with login e p stored verify have "loginUser d ?st' login = (respond 200 LoginSuccess, ?st')"
    by (simp add: loginUser_def Let_def del: get_prop.simps)
  with reg stored show ?thesis by blast
qed

lemma demo_hash_Str: "bcrypt_hash demo (Str p) salt = Inr (salt @ 36 # p)"
  by (simp add: demo_def demo_hash_def demo_kdf_def)

lemma demo_compare_Str:
  "bcrypt_compare demo (Str p) (Str h) = Inr (36 \<in> set h \<and> p = tl (dropWhile (\<lambda>c. c \<noteq> 36) h))"
  by (auto simp add: demo_def demo_compare_def verify_def demo_parse_def demo_kdf_def)

lemma ann_fields:
  "get_prop ann (js ''firstName'') = Str (js ''A'')"
  "get_prop ann (js ''lastName'') = Str (js ''B'')"
  "get_prop ann (js ''email'') = Str (js ''a@b.com'')"
  "get_prop ann (js ''password'') = Str (js ''secret1'')"
  "get_prop ann (js ''phone'') = Str (js ''+998900000000'')"
  "get_prop ann (js ''address'') = Str (js ''X'')"
  by (simp_all add: ann_def)

lemma ann_valid: "validateUserData ann = Inr []"
proof -
  have "\<not> nullish ann" by (simp add: ann_def)
  moreover have "spec_text_ok (Str (js ''A''))" "spec_text_ok (Str (js ''B''))"
    "spec_text_ok (Str (js ''X''))"
    by (simp_all add: js_def trim_def is_ws_def)
  moreover have "spec_email_ok (Str (js ''a@b.com''))"
    by (simp add: js_def emailRegex_def Plus_def not_at_ws_def is_ws_def)
  moreover have "spec_password_ok (Str (js ''secret1''))"
    by (simp add: js_def)
  moreover have "spec_phone_ok (Str (js ''+998900000000''))"
    by (simp add: js_def phoneRegex_def Plus_def plus_or_digit_def)
  ultimately show ?thesis
    unfolding validate_nil_iff ann_fields by simp
qed

lemma ann_new_record: "new_record ann (js ''s1$secret1'') = ann_record"
  unfolding new_record_def ann_fields ann_record_def by simp

theorem register_then_login_witness:
  "validateUserData ann = Inr [] \<and>
   kv_get [] (get_prop ann (js ''email'')) = Inr None \<and>
   registerUser demo (js ''s1'') [] ann = (respond 200 RegistrationSuccess, ann_store) \<and>
   loginUser demo ann_store
     (Obj [(js ''email'', Str (js ''a@b.com'')), (js ''password'', Str (js ''secret1''))]) =
     (respond 200 LoginSuccess, ann_store)"
proof -
  let ?login = "Obj [(js ''email'', Str (js ''a@b.com'')), (js ''password'', Str (js ''secret1''))]"
  have fresh: "kv_get [] (get_prop ann (js ''email'')) = Inr None"
    unfolding ann_fields by simp
  have hash: "bcrypt_hash demo (get_prop ann (js ''password'')) (js ''s1'') = Inr (js ''s1$secret1'')"
    unfolding ann_fields demo_hash_Str by (simp add: js_def)
  have verify: "bcrypt_compare demo (get_prop ann (js ''password'')) (Str (js ''s1$secret1'')) = Inr True"
    unfolding ann_fields demo_compare_Str by (simp add: js_def)
  have login: "\<not> nullish ?login"
    "get_prop ?login (js ''email'') = get_prop ann (js ''email'')"
    "get_prop ?login (js ''password'') = get_prop ann (js ''password'')"
    unfolding ann_fields by simp_all
  from register_then_login [OF ann_valid fresh hash verify login] obtain st' where
    reg: "registerUser demo (js ''s1'') [] ann = (respond 200 RegistrationSuccess, st')" and
    stored: "kv_get st' (get_prop ann (js ''email'')) = Inr (Some (new_record ann (js ''s1$secret1'')))" and
    log: "loginUser demo st' ?login = (respond 200 LoginSuccess, st')"
    by blast
  have "registerUser demo (js ''s1'') [] ann = (respond 200 RegistrationSuccess, ann_store)"
    using register_check_pass [OF ann_valid fresh]
      register_write_ok [OF ann_fields(3) hash, of "[]"]
    by (simp add: registerUser_def ann_new_record ann_store_def)
  with reg have "st' = ann_store" by simp
  with reg log ann_valid fresh show ?thesis by simp
qed


section \<open>What the handlers do to the store\<close>

lemma set_update_subset: "set (AList.update k v al) \<subseteq> insert (k, v) (set al)"
  by (induction al) auto

lemma set_delete_subset: "set (AList.delete k al) \<subseteq> set al"
  by (induction al) auto

lemma get_prop_update:
  "get_prop (Obj (AList.update k v al)) k' = (if k' = k then v else get_prop (Obj al) k')"
  by (simp add: update_conv')

lemma merge_field_other:
  "k' \<noteq> k \<Longrightarrow> get_prop (Obj (merge_field k body u)) k' = get_prop (Obj u) k'"
  by (simp add: merge_field_def update_conv')

lemma merge_field_same:
  "get_prop (Obj (merge_field k body u)) k =
     (if is_str (get_prop body k) \<and> trim (str_of (get_prop body k)) \<noteq> []
      then get_prop body k else get_prop (Obj u) k)"
  by (simp add: merge_field_def update_conv')

lemma merge_fields_other:
  "k' \<notin> {js ''firstName'', js ''lastName'', js ''phone'', js ''address''} \<Longrightarrow>
   get_prop (Obj (merge_fields body u)) k' = get_prop (Obj u) k'"
  by (simp add: merge_fields_def merge_field_other del: get_prop.simps)

lemma merge_fields_field:
  "k \<in> {js ''firstName'', js ''lastName'', js ''phone'', js ''address''} \<Longrightarrow>
   get_prop (Obj (merge_fields body u)) k =
     (if is_str (get_prop body k) \<and> trim (str_of (get_prop body k)) \<noteq> []
      then get_prop body k else get_prop (Obj u) k)"
  unfolding merge_fields_def
  by (auto simp add: merge_field_other merge_field_same simp del: get_prop.simps)

lemma merge_password_other:
  "merge_password d salt body u = Inr u' \<Longrightarrow> k' \<noteq> js ''password'' \<Longrightarrow>
   get_prop (Obj u') k' = get_prop (Obj u) k'"
  by (auto simp add: merge_password_def Let_def update_conv' split: if_splits sum.splits)

lemma registerUser_cases:
  assumes "registerUser d salt st body = (r, st')"
  shows "st' = st \<or>
     (\<exists>e hashedPwd. validateUserData body = Inr [] \<and> get_prop body (js ''email'') = Str e \<and>
        map_of st (Str e) = None \<and>
        bcrypt_hash d (get_prop body (js ''password'')) salt = Inr hashedPwd \<and>
        r = respond 200 RegistrationSuccess \<and>
        st' = AList.update (Str e) (new_record body hashedPwd) st)"
proof (cases "register_check st body")
  case (Inl resp)
  with assms show ?thesis by (simp add: registerUser_def)
next
  case (Inr b)
  then have valid: "validateUserData body = Inr []"
    and fresh: "kv_get st (get_prop body (js ''email'')) = Inr None" and b: "b = body"
    by (auto simp add: register_check_def split: sum.splits if_splits option.splits)
  from valid obtain e where e: "get_prop body (js ''email'') = Str e" by (rule valid_email)
  from assms Inr b e fresh valid show ?thesis
    by (auto simp add: registerUser_def register_write_def kv_set_def split: sum.splits)
qed

lemma updateUser_cases:
  assumes "updateUser d salt st e body = (r, st')"
  shows "st' = st \<or>
     (\<exists>user updated. map_of st (Str e) = Some user \<and> \<not> nullish body \<and>
        merge_password d salt body (merge_fields body user) = Inr updated \<and>
        r = respond 200 UserUpdated \<and>
        st' = AList.update (Str e) updated st)"
  using assms
  by (auto simp add: updateUser_def kv_set_def split: sum.splits if_splits option.splits)

lemma deleteUser_cases:
  assumes "deleteUser st e = (r, st')"
  shows "st' = st \<or> (r = respond 200 UserDeleted \<and> st' = AList.delete (Str e) st)"
  using assms
  by (auto simp add: deleteUser_def kv_delete_def split: sum.splits if_splits option.splits)

lemma loginUser_store: "snd (loginUser d st body) = st"
  by (simp add: loginUser_def Let_def split: sum.splits option.splits)

lemma getAllUsers_store: "snd (getAllUsers st) = st"
  by (simp add: getAllUsers_def)

lemma store_inv_update:
  assumes "store_inv st" "get_prop (Obj u) (js ''email'') = k"
  shows "store_inv (AList.update k u st)"
  using assms set_update_subset [of k u st]
  by (auto simp add: store_inv_def distinct_update simp del: get_prop.simps)

lemma store_inv_delete: "store_inv st \<Longrightarrow> store_inv (AList.delete k st)"
  using set_delete_subset [of k st]
  by (auto simp add: store_inv_def distinct_delete simp del: get_prop.simps)

lemma new_record_email [simp]:
  "get_prop (Obj (new_record body h)) (js ''email'') = get_prop body (js ''email'')"
  by (simp add: new_record_def)

lemma handle_store_inv:
  assumes "store_inv st" "handle d salt st req = (resp, st')"
  shows "store_inv st'"
proof (cases req)
  case (Register body)
  with assms registerUser_cases [of d salt st body resp st'] show ?thesis
    by (auto intro: store_inv_update simp del: get_prop.simps)
next
  case (Login body)
  with assms loginUser_store [of d st body] show ?thesis by simp
next
  case ListUsers
  with assms getAllUsers_store [of st] show ?thesis by simp
next
  case (Update e body)
  with assms have "updateUser d salt st e body = (resp, st')" by simp
  from updateUser_cases [OF this] show ?thesis
  proof
    assume "st' = st" with assms show ?thesis by simp
  next
    assume "\<exists>user updated. map_of st (Str e) = Some user \<and> \<not> nullish body \<and>
        merge_password d salt body (merge_fields body user) = Inr updated \<and>
        resp = respond 200 UserUpdated \<and> st' = AList.update (Str e) updated st"
    then obtain user updated where
      user: "map_of st (Str e) = Some user" and
      upd: "merge_password d salt body (merge_fields body user) = Inr updated" and
      st': "st' = AList.update (Str e) updated st"
      by blast
    from user have "(Str e, user) \<in> set st" by (rule map_of_SomeD)
    with assms(1) have "get_prop (Obj user) (js ''email'') = Str e"
      by (auto simp add: store_inv_def simp del: get_prop.simps)
    moreover have "get_prop (Obj updated) (js ''email'') = get_prop (Obj user) (js ''email'')"
      using merge_password_other [OF upd, of "js ''email''"]
      by (simp add: merge_fields_other del: get_prop.simps)
    ultimately show ?thesis using assms(1) st' by (simp add: store_inv_update del: get_prop.simps)
  qed
next
  case (Delete e)
  with assms deleteUser_cases [of st e resp st'] show ?thesis
    by (auto intro: store_inv_delete)
qed

lemma reachable_store_inv: "reachable d st \<Longrightarrow> store_inv st"
proof (induction rule: reachable.induct)
  case initial
  show ?case by (simp add: store_inv_def)
next
  case (request st salt req resp st')
  then show ?case by (blast intro: handle_store_inv)
qed

lemma store_inv_emails:
  assumes "store_inv st"
  shows "distinct (map (\<lambda>entry. get_prop (Obj (snd entry)) (js ''email'')) (kv_list st))"
proof -
  from assms have "\<forall>entry \<in> set st. get_prop (Obj (snd entry)) (js ''email'') = fst entry"
    by (simp add: store_inv_def)
  then have eq: "map (\<lambda>entry. get_prop (Obj (snd entry)) (js ''email'')) st = map fst st"
    by (intro map_cong) simp_all
  from assms have "distinct (map fst st)" by (simp add: store_inv_def)
  then show ?thesis unfolding kv_list_def eq .
qed

text \<open>
  C2. When the email of a registration body already has a stored record, \<open>registerUser\<close>
  responds 400 and leaves the store as it is; the response is "Email already exist" whenever
  the body passes validation (a body that fails it is answered with the validation errors,
  also 400). In every store reached by handling requests one after the other from the empty
  store, no key and no email occurs in two records.
\<close>

theorem register_existing_email:
  assumes "kv_get st (get_prop body (js ''email'')) = Inr (Some user)"
  shows "status (fst (registerUser d salt st body)) = 400 \<and>
         snd (registerUser d salt st body) = st \<and>
         (validateUserData body = Inr [] \<longrightarrow>
            registerUser d salt st body = (respond 400 EmailAlreadyExist, st)) \<and>
         (reachable d st \<longrightarrow>
            distinct (map fst (kv_list st)) \<and>
            distinct (map (\<lambda>entry. get_prop (Obj (snd entry)) (js ''email'')) (kv_list st)))"
proof -
  from assms have "key_part (get_prop body (js ''email''))"
    by (auto dest: kv_get_Some_key)
  then have "\<not> nullish body" by (cases body) auto
  then obtain errors where errors: "validateUserData body = Inr errors"
    by (simp add: validateUserData_def)
  have check: "register_check st body =
      Inl (if errors = [] then respond 400 EmailAlreadyExist else respond 400 (ValidationError errors))"
    using assms errors by (simp add: register_check_def)
  then have reg: "registerUser d salt st body =
      (if errors = [] then respond 400 EmailAlreadyExist else respond 400 (ValidationError errors), st)"
    by (simp add: registerUser_def)
  have inv: "reachable d st \<longrightarrow>
            distinct (map fst (kv_list st)) \<and>
            distinct (map (\<lambda>entry. get_prop (Obj (snd entry)) (js ''email'')) (kv_list st))"
    using reachable_store_inv [of d st] store_inv_emails [of st]
    by (auto simp add: store_inv_def kv_list_def)
  from reg errors inv show ?thesis by (simp add: respond_def)
qed

lemma bob_fields:
  "get_prop bob (js ''firstName'') = Str (js ''C'')"
  "get_prop bob (js ''lastName'') = Str (js ''D'')"
  "get_prop bob (js ''email'') = Str (js ''a@b.com'')"
  "get_prop bob (js ''password'') = Str (js ''hunter2'')"
  "get_prop bob (js ''phone'') = Str (js ''+998900000001'')"
  "get_prop bob (js ''address'') = Str (js ''Y'')"
  by (simp_all add: bob_def)

lemma bob_valid: "validateUserData bob = Inr []"
proof -
  have "\<not> nullish bob" by (simp add: bob_def)
  moreover have "spec_text_ok (Str (js ''C''))" "spec_text_ok (Str (js ''D''))"
    "spec_text_ok (Str (js ''Y''))"
    by (simp_all add: js_def trim_def is_ws_def)
  moreover have "spec_email_ok (Str (js ''a@b.com''))"
    by (simp add: js_def emailRegex_def Plus_def not_at_ws_def is_ws_def)
  moreover have "spec_password_ok (Str (js ''hunter2''))"
    by (simp add: js_def)
  moreover have "spec_phone_ok (Str (js ''+998900000001''))"
    by (simp add: js_def phoneRegex_def Plus_def plus_or_digit_def)
  ultimately show ?thesis
    unfolding validate_nil_iff bob_fields by simp
qed

lemma bob_new_record: "new_record bob (js ''s2$hunter2'') = bob_record"
  unfolding new_record_def bob_fields bob_record_def by simp

lemma ann_store_reachable: "reachable demo ann_store"
proof -
  have fresh: "kv_get [] (get_prop ann (js ''email'')) = Inr None"
    unfolding ann_fields by simp
  have hash: "bcrypt_hash demo (get_prop ann (js ''password'')) (js ''s1'') = Inr (js ''s1$secret1'')"
    unfolding ann_fields demo_hash_Str by (simp add: js_def)
  have "registerUser demo (js ''s1'') [] ann = (respond 200 RegistrationSuccess, ann_store)"
    using register_check_pass [OF ann_valid fresh]
      register_write_ok [OF ann_fields(3) hash, of "[]"]
    by (simp add: registerUser_def ann_new_record ann_store_def)
  then have "handle demo (js ''s1'') [] (Register ann) = (respond 200 RegistrationSuccess, ann_store)"
    by simp
  with reachable.initial [of demo] show ?thesis by (rule reachable.request)
qed

theorem register_existing_email_witness:
  "kv_get ann_store (get_prop bob (js ''email'')) = Inr (Some ann_record) \<and>
   reachable demo ann_store \<and>
   registerUser demo (js ''s2'') ann_store bob = (respond 400 EmailAlreadyExist, ann_store) \<and>
   distinct (map fst (kv_list ann_store))"
proof -
  have email: "get_prop bob (js ''email'') = Str (js ''a@b.com'')"
    by (simp add: bob_def)
  have stored: "kv_get ann_store (get_prop bob (js ''email'')) = Inr (Some ann_record)"
    unfolding email by (simp add: ann_store_def)
  have valid: "validateUserData bob = Inr []"
    by (rule bob_valid)
  from register_existing_email [OF stored, of demo "js ''s2''"] valid ann_store_reachable stored
  show ?thesis by simp
qed


section \<open>Two registrations for one email\<close>

lemma filter_update_absent:
  "map_of al k = None \<Longrightarrow> filter (\<lambda>entry. fst entry = k) (AList.update k v al) = [(k, v)]"
  by (induction al) (auto split: if_splits)

lemma register_race_run:
  assumes valid1: "validateUserData body1 = Inr []"
    and valid2: "validateUserData body2 = Inr []"
    and same: "get_prop body1 (js ''email'') = get_prop body2 (js ''email'')"
    and fresh: "kv_get st (get_prop body1 (js ''email'')) = Inr None"
    and hash1: "bcrypt_hash d (get_prop body1 (js ''password'')) salt1 = Inr hashed1"
    and hash2: "bcrypt_hash d (get_prop body2 (js ''password'')) salt2 = Inr hashed2"
  shows "register_race d salt1 salt2 st body1 body2 =
           ((respond 200 RegistrationSuccess, respond 200 RegistrationSuccess),
            AList.update (get_prop body2 (js ''email'')) (new_record body2 hashed2) st)"
proof -
  from valid1 obtain e where e: "get_prop body1 (js ''email'') = Str e" by (rule valid_email)
  with same have e2: "get_prop body2 (js ''email'') = Str e" by simp
  from fresh same have fresh2: "kv_get st (get_prop body2 (js ''email'')) = Inr None" by simp
  have c1: "register_check st body1 = Inr body1"
    using valid1 fresh by (rule register_check_pass)
  have c2: "register_check st body2 = Inr body2"
    using valid2 fresh2 by (rule register_check_pass)
  have w1: "register_write d salt1 st body1 =
      (respond 200 RegistrationSuccess, AList.update (Str e) (new_record body1 hashed1) st)"
    using e hash1 by (rule register_write_ok)
  have w2: "register_write d salt2 (AList.update (Str e) (new_record body1 hashed1) st) body2 =
      (respond 200 RegistrationSuccess,
       AList.update (Str e) (new_record body2 hashed2)
         (AList.update (Str e) (new_record body1 hashed1) st))"
    using e2 hash2 by (rule register_write_ok)
  show ?thesis
    by (simp add: register_race_def c1 c2 w1 w2 e2 update_last)
qed

text \<open>
  C3, as stated, fails. \<open>ann\<close> and \<open>bob\<close> register the same email on the empty store
  and both pass the existence check before either writes: both are answered 200
  "Registration Success", neither sees "Email already exist", and the record left in the store
  is the second writer's.
\<close>

theorem register_race_counterexample:
  "get_prop ann (js ''email'') = get_prop bob (js ''email'') \<and>
   register_check [] ann = Inr ann \<and>
   register_check [] bob = Inr bob \<and>
   register_race demo (js ''s1'') (js ''s2'') [] ann bob =
     ((respond 200 RegistrationSuccess, respond 200 RegistrationSuccess),
      [(Str (js ''a@b.com''), bob_record)])"
proof -
  have same: "get_prop ann (js ''email'') = get_prop bob (js ''email'')"
    unfolding ann_fields bob_fields ..
  have fresh: "kv_get [] (get_prop ann (js ''email'')) = Inr None"
    unfolding ann_fields by simp
  have fresh2: "kv_get [] (get_prop bob (js ''email'')) = Inr None"
    unfolding bob_fields by simp
  have hash1: "bcrypt_hash demo (get_prop ann (js ''password'')) (js ''s1'') = Inr (js ''s1$secret1'')"
    unfolding ann_fields demo_hash_Str by (simp add: js_def)
  have hash2: "bcrypt_hash demo (get_prop bob (js ''password'')) (js ''s2'') = Inr (js ''s2$hunter2'')"
    unfolding bob_fields demo_hash_Str by (simp add: js_def)
  have "register_race demo (js ''s1'') (js ''s2'') [] ann bob =
     ((respond 200 RegistrationSuccess, respond 200 RegistrationSuccess),
      [(Str (js ''a@b.com''), bob_record)])"
    unfolding register_race_run [OF ann_valid bob_valid same fresh hash1 hash2] bob_new_record
      bob_fields by simp
  with same register_check_pass [OF ann_valid fresh] register_check_pass [OF bob_valid fresh2]
  show ?thesis by simp
qed

text \<open>
  C3, amended. \<open>registerUser\<close> checks existence and writes in two separate steps, and the
  write is unconditional. When two valid registrations for the same email, which has no stored
  record, both pass the check before either writes (and the library hashes both passwords),
  both respond 200 and neither observes a conflict; exactly one record is then stored under
  that email, the one written last.
\<close>

theorem register_race_last_writer:
  assumes valid1: "validateUserData body1 = Inr []"
    and valid2: "validateUserData body2 = Inr []"
    and same: "get_prop body1 (js ''email'') = get_prop body2 (js ''email'')"
    and fresh: "kv_get st (get_prop body1 (js ''email'')) = Inr None"
    and hash1: "bcrypt_hash d (get_prop body1 (js ''password'')) salt1 = Inr hashed1"
    and hash2: "bcrypt_hash d (get_prop body2 (js ''password'')) salt2 = Inr hashed2"
  shows "\<exists>st2. register_race d salt1 salt2 st body1 body2 =
           ((respond 200 RegistrationSuccess, respond 200 RegistrationSuccess), st2) \<and>
         kv_get st2 (get_prop body1 (js ''email'')) = Inr (Some (new_record body2 hashed2)) \<and>
         filter (\<lambda>entry. fst entry = get_prop body1 (js ''email'')) (kv_list st2) =
           [(get_prop body1 (js ''email''), new_record body2 hashed2)]"
proof -
  from valid1 obtain e where e: "get_prop body1 (js ''email'') = Str e" by (rule valid_email)
  with same have e2: "get_prop body2 (js ''email'') = Str e" by simp
  from fresh e have none: "map_of st (Str e) = None" by simp
  let ?st2 = "AList.update (Str e) (new_record body2 hashed2) st"
  have run: "register_race d salt1 salt2 st body1 body2 =
           ((respond 200 RegistrationSuccess, respond 200 RegistrationSuccess), ?st2)"
    using register_race_run [OF assms] e2 by simp
  have stored: "kv_get ?st2 (get_prop body1 (js ''email'')) = Inr (Some (new_record body2 hashed2))"
    by (simp add: e update_conv')
  have one: "filter (\<lambda>entry. fst entry = get_prop body1 (js ''email'')) (kv_list ?st2) =
           [(get_prop body1 (js ''email''), new_record body2 hashed2)]"
    using filter_update_absent [OF none] by (simp add: e kv_list_def)
  from run stored one show ?thesis by blast
qed

theorem register_race_last_writer_witness:
  "validateUserData ann = Inr [] \<and> validateUserData bob = Inr [] \<and>
   kv_get [] (get_prop ann (js ''email'')) = Inr None \<and>
   fst (register_race demo (js ''s1'') (js ''s2'') [] ann bob) =
     (respond 200 RegistrationSuccess, respond 200 RegistrationSuccess) \<and>
   kv_list (snd (register_race demo (js ''s1'') (js ''s2'') [] ann bob)) =
     [(Str (js ''a@b.com''), bob_record)]"
proof -
  have same: "get_prop ann (js ''email'') = get_prop bob (js ''email'')"
    unfolding ann_fields bob_fields ..
  have fresh: "kv_get [] (get_prop ann (js ''email'')) = Inr None"
    unfolding ann_fields by simp
  have hash1: "bcrypt_hash demo (get_prop ann (js ''password'')) (js ''s1'') = Inr (js ''s1$secret1'')"
    unfolding ann_fields demo_hash_Str by (simp add: js_def)
  have hash2: "bcrypt_hash demo (get_prop bob (js ''password'')) (js ''s2'') = Inr (js ''s2$hunter2'')"
    unfolding bob_fields demo_hash_Str by (simp add: js_def)
  from register_race_last_writer [OF ann_valid bob_valid same fresh hash1 hash2]
  obtain st2 where
    run: "register_race demo (js ''s1'') (js ''s2'') [] ann bob =
           ((respond 200 RegistrationSuccess, respond 200 RegistrationSuccess), st2)" and
    stored: "kv_get st2 (get_prop ann (js ''email'')) = Inr (Some (new_record bob (js ''s2$hunter2'')))"
    by blast
  have "snd (register_race demo (js ''s1'') (js ''s2'') [] ann bob) =
      [(Str (js ''a@b.com''), bob_record)]"
    unfolding register_race_run [OF ann_valid bob_valid same fresh hash1 hash2] bob_new_record
      bob_fields by simp
  with run ann_valid bob_valid fresh show ?thesis by (simp add: kv_list_def)
qed


section \<open>Verification of the password\<close>

text \<open>
  C8. Let the library's \<open>compare\<close> be the \<open>verify\<close> of the specification on strings. Then for
  every plaintext and every digest \<open>verify\<close> is a boolean: false for a malformed digest, and
  true exactly when the digest is well formed and the recomputed hash equals the embedded one.
  A login with the email of a stored record and a non-empty password is answered 401 when
  \<open>verify\<close> is false and 200 when it is true, never 500.
\<close>

theorem verify_decides_login:
  assumes lib: "\<forall>p h. bcrypt_compare d (Str p) (Str h) = Inr (verify parse kdf p h)"
    and stored: "kv_get st (Str e) = Inr (Some user)"
      "get_prop (Obj user) (js ''password'') = Str digest"
    and login: "get_prop login (js ''email'') = Str e" "e \<noteq> []"
      "get_prop login (js ''password'') = Str p" "p \<noteq> []"
  shows "(parse digest = None \<longrightarrow> \<not> verify parse kdf p digest) \<and>
         (verify parse kdf p digest \<longleftrightarrow>
            (\<exists>cost salt out. parse digest = Some (cost, salt, out) \<and> kdf cost salt p = out)) \<and>
         bcrypt_compare d (Str p) (Str digest) = Inr (verify parse kdf p digest) \<and>
         (\<not> verify parse kdf p digest \<longrightarrow>
            loginUser d st login = (respond 401 InvalidPassword, st)) \<and>
         (verify parse kdf p digest \<longrightarrow>
            loginUser d st login = (respond 200 LoginSuccess, st))"
proof -
  have malformed: "parse digest = None \<longrightarrow> \<not> verify parse kdf p digest"
    by (simp add: verify_def)
  have match: "verify parse kdf p digest \<longleftrightarrow>
            (\<exists>cost salt out. parse digest = Some (cost, salt, out) \<and> kdf cost salt p = out)"
    by (auto simp add: verify_def split: option.splits)
  from lib have cmp: "bcrypt_compare d (Str p) (Str digest) = Inr (verify parse kdf p digest)"
    by simp
  from login have body: "\<not> nullish login" by (cases login) auto
  have run: "loginUser d st login =
      (if verify parse kdf p digest then respond 200 LoginSuccess
       else respond 401 InvalidPassword, st)"
    using body login stored cmp by (simp add: loginUser_def Let_def del: get_prop.simps)
  from malformed match cmp run show ?thesis by simp
qed

theorem verify_decides_login_witness:
  "(\<forall>p h. bcrypt_compare demo (Str p) (Str h) = Inr (verify demo_parse demo_kdf p h)) \<and>
   kv_get ann_store (Str (js ''a@b.com'')) = Inr (Some ann_record) \<and>
   \<not> verify demo_parse demo_kdf (js ''wrong'') (js ''s1$secret1'') \<and>
   loginUser demo ann_store
     (Obj [(js ''email'', Str (js ''a@b.com'')), (js ''password'', Str (js ''wrong''))]) =
     (respond 401 InvalidPassword, ann_store)"
proof -
  let ?login = "Obj [(js ''email'', Str (js ''a@b.com'')), (js ''password'', Str (js ''wrong''))]"
  have lib: "\<forall>p h. bcrypt_compare demo (Str p) (Str h) = Inr (verify demo_parse demo_kdf p h)"
    by (simp add: demo_def demo_compare_def)
  have stored: "kv_get ann_store (Str (js ''a@b.com'')) = Inr (Some ann_record)"
    "get_prop (Obj ann_record) (js ''password'') = Str (js ''s1$secret1'')"
    by (simp_all add: ann_store_def ann_record_def)
  have login: "get_prop ?login (js ''email'') = Str (js ''a@b.com'')" "js ''a@b.com'' \<noteq> []"
    "get_prop ?login (js ''password'') = Str (js ''wrong'')" "js ''wrong'' \<noteq> []"
    by (simp_all add: js_def)
  have wrong: "\<not> verify demo_parse demo_kdf (js ''wrong'') (js ''s1$secret1'')"
    by (simp add: verify_def demo_parse_def demo_kdf_def js_def)
  from verify_decides_login [OF lib stored login] wrong lib stored(1)
  show ?thesis by simp
qed


section \<open>Updates\<close>

lemma merge_password_skip:
  "\<not> (is_str (get_prop body (js ''password'')) \<and> 6 \<le> length (str_of (get_prop body (js ''password''))))
   \<Longrightarrow> merge_password d salt body u = Inr u"
  by (auto simp add: merge_password_def Let_def)

lemma merge_password_hash:
  "is_str (get_prop body (js ''password'')) \<Longrightarrow> 6 \<le> length (str_of (get_prop body (js ''password'')))
   \<Longrightarrow> bcrypt_hash d (get_prop body (js ''password'')) salt = Inr h
   \<Longrightarrow> merge_password d salt body u = Inr (AList.update (js ''password'') (Str h) u)"
  by (simp add: merge_password_def Let_def)

lemma updateUser_run:
  assumes "kv_get st (Str e) = Inr (Some user)" "\<not> nullish body"
  shows "updateUser d salt st e body =
     (case merge_password d salt body (merge_fields body user) of
        Inl x \<Rightarrow> (internal_error, st)
      | Inr updated \<Rightarrow> (respond 200 UserUpdated, AList.update (Str e) updated st))"
  using assms by (simp add: updateUser_def kv_set_def split: sum.splits)

lemma ann_stored: "kv_get ann_store (Str (js ''a@b.com'')) = Inr (Some ann_record)"
  by (simp add: ann_store_def)

text \<open>
  C5, as stated, fails. A password of six spaces is empty after trimming, yet an update that
  supplies it is answered 200 and replaces the stored password hash.
\<close>

theorem update_blank_password_counterexample:
  "kv_get ann_store (Str (js ''a@b.com'')) = Inr (Some ann_record) \<and>
   trim (js ''      '') = [] \<and>
   updateUser demo (js ''s2'') ann_store (js ''a@b.com'')
     (Obj [(js ''password'', Str (js ''      ''))]) =
     (respond 200 UserUpdated,
      [(Str (js ''a@b.com''),
        [(js ''firstName'', Str (js ''A'')), (js ''lastName'', Str (js ''B'')),
         (js ''email'', Str (js ''a@b.com'')), (js ''password'', Str (js ''s2$      '')),
         (js ''phone'', Str (js ''+998900000000'')), (js ''address'', Str (js ''X''))])]) \<and>
   Str (js ''s2$      '') \<noteq> get_prop (Obj ann_record) (js ''password'')"
proof -
  let ?body = "Obj [(js ''password'', Str (js ''      ''))]"
  have blank: "trim (js ''      '') = []"
    by (simp add: js_def trim_def is_ws_def)
  have fields: "merge_fields ?body ann_record = ann_record"
    by (simp add: merge_fields_def merge_field_def)
  have pw: "merge_password demo (js ''s2'') ?body ann_record =
      Inr (AList.update (js ''password'') (Str (js ''s2$      '')) ann_record)"
    by (simp add: merge_password_def demo_hash_Str) (simp add: js_def)
  have run: "updateUser demo (js ''s2'') ann_store (js ''a@b.com'') ?body =
      (respond 200 UserUpdated,
       AList.update (Str (js ''a@b.com''))
         (AList.update (js ''password'') (Str (js ''s2$      '')) ann_record) ann_store)"
    using updateUser_run [OF ann_stored, of ?body demo "js ''s2''"] by (simp add: fields pw)
  have differs: "Str (js ''s2$      '') \<noteq> get_prop (Obj ann_record) (js ''password'')"
    by (simp add: ann_record_def)
  from ann_stored blank run differs show ?thesis
    by (simp add: ann_store_def ann_record_def)
qed

text \<open>
  C5, amended. For a stored record and a body that is not \<open>null\<close> or \<open>undefined\<close>: an
  update that supplies only a phone that is non-empty after trimming responds 200, sets the
  phone and leaves every other property of the record as it was. More generally each of
  firstName, lastName, phone and address is left untouched when it is absent from the body or
  empty after trimming; the password hash is left untouched when the password is absent or
  shorter than 6 code units (trimming plays no part for the password); every other property,
  the email among them, is always left untouched.
\<close>

theorem update_partial_merge:
  assumes stored: "kv_get st (Str e) = Inr (Some user)"
    and body: "\<not> nullish body"
  shows "\<exists>updated.
     kv_get (snd (updateUser d salt st e body)) (Str e) = Inr (Some updated) \<and>
     (is_str (get_prop body (js ''phone'')) \<and> trim (str_of (get_prop body (js ''phone''))) \<noteq> [] \<and>
      get_prop body (js ''firstName'') = Undefined \<and> get_prop body (js ''lastName'') = Undefined \<and>
      get_prop body (js ''address'') = Undefined \<and> get_prop body (js ''password'') = Undefined
      \<longrightarrow> fst (updateUser d salt st e body) = respond 200 UserUpdated \<and>
          get_prop (Obj updated) (js ''phone'') = get_prop body (js ''phone'') \<and>
          (\<forall>k. k \<noteq> js ''phone'' \<longrightarrow> get_prop (Obj updated) k = get_prop (Obj user) k)) \<and>
     (\<forall>k \<in> {js ''firstName'', js ''lastName'', js ''phone'', js ''address''}.
        get_prop body k = Undefined \<or>
        (is_str (get_prop body k) \<and> trim (str_of (get_prop body k)) = [])
        \<longrightarrow> get_prop (Obj updated) k = get_prop (Obj user) k) \<and>
     (get_prop body (js ''password'') = Undefined \<or>
      (is_str (get_prop body (js ''password'')) \<and> length (str_of (get_prop body (js ''password''))) < 6)
      \<longrightarrow> get_prop (Obj updated) (js ''password'') = get_prop (Obj user) (js ''password'')) \<and>
     (\<forall>k. k \<notin> {js ''firstName'', js ''lastName'', js ''phone'', js ''address'', js ''password''}
        \<longrightarrow> get_prop (Obj updated) k = get_prop (Obj user) k)"
proof (cases "merge_password d salt body (merge_fields body user)")
  case (Inl x)
  then have run: "updateUser d salt st e body = (internal_error, st)"
    using updateUser_run [OF stored body, of d salt] by simp
  from Inl have pw: "is_str (get_prop body (js ''password''))"
    "6 \<le> length (str_of (get_prop body (js ''password'')))"
    using merge_password_skip [of body d salt "merge_fields body user"] by auto
  have "kv_get (snd (updateUser d salt st e body)) (Str e) = Inr (Some user)"
    using run stored by simp
  moreover from pw have "get_prop body (js ''password'') \<noteq> Undefined" by auto
  moreover from pw have "\<not> length (str_of (get_prop body (js ''password''))) < 6" by simp
  ultimately show ?thesis by (intro exI [of _ user]) simp
next
  case (Inr updated)
  then have run: "updateUser d salt st e body =
      (respond 200 UserUpdated, AList.update (Str e) updated st)"
    using updateUser_run [OF stored body, of d salt] by simp
  have get: "kv_get (snd (updateUser d salt st e body)) (Str e) = Inr (Some updated)"
    by (simp add: run update_conv')
  have other: "\<And>k. k \<noteq> js ''password'' \<Longrightarrow>
      get_prop (Obj updated) k = get_prop (Obj (merge_fields body user)) k"
    using merge_password_other [OF Inr] by blast
  have field: "\<And>k. k \<in> {js ''firstName'', js ''lastName'', js ''phone'', js ''address''} \<Longrightarrow>
      get_prop (Obj updated) k =
        (if is_str (get_prop body k) \<and> trim (str_of (get_prop body k)) \<noteq> []
         then get_prop body k else get_prop (Obj user) k)"
  proof -
    fix k assume k: "k \<in> {js ''firstName'', js ''lastName'', js ''phone'', js ''address''}"
    then have "k \<noteq> js ''password''" by auto
    then show "get_prop (Obj updated) k =
        (if is_str (get_prop body k) \<and> trim (str_of (get_prop body k)) \<noteq> []
         then get_prop body k else get_prop (Obj user) k)"
      using other [of k] merge_fields_field [OF k, of body user] by simp
  qed
  have rest: "\<And>k. k \<notin> {js ''firstName'', js ''lastName'', js ''phone'', js ''address'', js ''password''}
      \<Longrightarrow> get_prop (Obj updated) k = get_prop (Obj user) k"
  proof -
    fix k assume k: "k \<notin> {js ''firstName'', js ''lastName'', js ''phone'', js ''address'', js ''password''}"
    then have "k \<noteq> js ''password''" "k \<notin> {js ''firstName'', js ''lastName'', js ''phone'', js ''address''}"
      by auto
    then show "get_prop (Obj updated) k = get_prop (Obj user) k"
      using other [of k] merge_fields_other [of k body user] by simp
  qed
  have pw_skip: "\<not> (is_str (get_prop body (js ''password'')) \<and>
        6 \<le> length (str_of (get_prop body (js ''password''))))
      \<Longrightarrow> get_prop (Obj updated) (js ''password'') = get_prop (Obj user) (js ''password'')"
  proof -
    assume skip: "\<not> (is_str (get_prop body (js ''password'')) \<and>
        6 \<le> length (str_of (get_prop body (js ''password''))))"
    from merge_password_skip [OF skip, of d salt "merge_fields body user"] Inr
    have "updated = merge_fields body user" by simp
    then show ?thesis by (simp add: merge_fields_other del: get_prop.simps)
  qed
  have c1: "is_str (get_prop body (js ''phone'')) \<and> trim (str_of (get_prop body (js ''phone''))) \<noteq> [] \<and>
      get_prop body (js ''firstName'') = Undefined \<and> get_prop body (js ''lastName'') = Undefined \<and>
      get_prop body (js ''address'') = Undefined \<and> get_prop body (js ''password'') = Undefined
      \<longrightarrow> fst (updateUser d salt st e body) = respond 200 UserUpdated \<and>
          get_prop (Obj updated) (js ''phone'') = get_prop body (js ''phone'') \<and>
          (\<forall>k. k \<noteq> js ''phone'' \<longrightarrow> get_prop (Obj updated) k = get_prop (Obj user) k)"
  proof (intro impI conjI allI)
    assume h: "is_str (get_prop body (js ''phone'')) \<and> trim (str_of (get_prop body (js ''phone''))) \<noteq> [] \<and>
      get_prop body (js ''firstName'') = Undefined \<and> get_prop body (js ''lastName'') = Undefined \<and>
      get_prop body (js ''address'') = Undefined \<and> get_prop body (js ''password'') = Undefined"
    show "fst (updateUser d salt st e body) = respond 200 UserUpdated" by (simp add: run)
    show "get_prop (Obj updated) (js ''phone'') = get_prop body (js ''phone'')"
      using field [of "js ''phone''"] h by simp
    fix k assume k: "k \<noteq> js ''phone''"
    show "get_prop (Obj updated) k = get_prop (Obj user) k"
    proof (cases "k \<in> {js ''firstName'', js ''lastName'', js ''address''}")
      case True
      then have "get_prop body k = Undefined" using h by auto
      moreover from True have "k \<in> {js ''firstName'', js ''lastName'', js ''phone'', js ''address''}"
        by auto
      ultimately show ?thesis using field [of k] by simp
    next
      case False
      show ?thesis
      proof (cases "k = js ''password''")
        case True
        with h pw_skip show ?thesis by simp
      next
        case False
        with \<open>k \<notin> {js ''firstName'', js ''lastName'', js ''address''}\<close> k rest [of k]
        show ?thesis by simp
      qed
    qed
  qed
  have c2: "\<forall>k \<in> {js ''firstName'', js ''lastName'', js ''phone'', js ''address''}.
        get_prop body k = Undefined \<or>
        (is_str (get_prop body k) \<and> trim (str_of (get_prop body k)) = [])
        \<longrightarrow> get_prop (Obj updated) k = get_prop (Obj user) k"
  proof (intro ballI impI)
    fix k assume k: "k \<in> {js ''firstName'', js ''lastName'', js ''phone'', js ''address''}"
      and h: "get_prop body k = Undefined \<or>
        (is_str (get_prop body k) \<and> trim (str_of (get_prop body k)) = [])"
    from h have "\<not> (is_str (get_prop body k) \<and> trim (str_of (get_prop body k)) \<noteq> [])" by auto
    with field [OF k] show "get_prop (Obj updated) k = get_prop (Obj user) k" by simp
  qed
  have c3: "get_prop body (js ''password'') = Undefined \<or>
      (is_str (get_prop body (js ''password'')) \<and> length (str_of (get_prop body (js ''password''))) < 6)
      \<longrightarrow> get_prop (Obj updated) (js ''password'') = get_prop (Obj user) (js ''password'')"
    using pw_skip by auto
  from get c1 c2 c3 rest show ?thesis by blast
qed

theorem update_partial_merge_witness:
  "kv_get ann_store (Str (js ''a@b.com'')) = Inr (Some ann_record) \<and>
   updateUser demo (js ''s2'') ann_store (js ''a@b.com'') (Obj [(js ''phone'', Str (js ''+111''))]) =
     (respond 200 UserUpdated,
      [(Str (js ''a@b.com''),
        [(js ''firstName'', Str (js ''A'')), (js ''lastName'', Str (js ''B'')),
         (js ''email'', Str (js ''a@b.com'')), (js ''password'', Str (js ''s1$secret1'')),
         (js ''phone'', Str (js ''+111'')), (js ''address'', Str (js ''X''))])]) \<and>
   get_prop (Obj ann_record) (js ''phone'') \<noteq> Str (js ''+111'')"
proof -
  let ?body = "Obj [(js ''phone'', Str (js ''+111''))]"
  let ?new = "[(js ''firstName'', Str (js ''A'')), (js ''lastName'', Str (js ''B'')),
         (js ''email'', Str (js ''a@b.com'')), (js ''password'', Str (js ''s1$secret1'')),
         (js ''phone'', Str (js ''+111'')), (js ''address'', Str (js ''X''))]"
  have body: "\<not> nullish ?body" by simp
  have filled: "trim (js ''+111'') \<noteq> []"
    by (simp add: js_def trim_def is_ws_def)
  from update_partial_merge [OF ann_stored body, of demo "js ''s2''"] obtain updated where
    get: "kv_get (snd (updateUser demo (js ''s2'') ann_store (js ''a@b.com'') ?body))
            (Str (js ''a@b.com'')) = Inr (Some updated)" and
    only: "is_str (get_prop ?body (js ''phone'')) \<and> trim (str_of (get_prop ?body (js ''phone''))) \<noteq> [] \<and>
      get_prop ?body (js ''firstName'') = Undefined \<and> get_prop ?body (js ''lastName'') = Undefined \<and>
      get_prop ?body (js ''address'') = Undefined \<and> get_prop ?body (js ''password'') = Undefined
      \<longrightarrow> fst (updateUser demo (js ''s2'') ann_store (js ''a@b.com'') ?body) = respond 200 UserUpdated \<and>
          get_prop (Obj updated) (js ''phone'') = get_prop ?body (js ''phone'') \<and>
          (\<forall>k. k \<noteq> js ''phone'' \<longrightarrow> get_prop (Obj updated) k = get_prop (Obj ann_record) k)"
    by blast
  from only filled have ok: "fst (updateUser demo (js ''s2'') ann_store (js ''a@b.com'') ?body) =
      respond 200 UserUpdated"
    by simp
  have fields: "merge_fields ?body ann_record = ?new"
    using filled by (simp add: merge_fields_def merge_field_def ann_record_def)
  have "merge_password demo (js ''s2'') ?body ?new = Inr ?new"
    by (rule merge_password_skip) simp
  then have run: "updateUser demo (js ''s2'') ann_store (js ''a@b.com'') ?body =
      (respond 200 UserUpdated, [(Str (js ''a@b.com''), ?new)])"
    using updateUser_run [OF ann_stored body, of demo "js ''s2''"]
    by (simp add: fields) (simp add: ann_store_def)
  have old: "get_prop (Obj ann_record) (js ''phone'') \<noteq> Str (js ''+111'')"
    by (simp add: ann_record_def)
  from ann_stored ok run old show ?thesis by simp
qed

text \<open>
  C10, as stated, fails. For an existing email, a body that is \<open>null\<close> or absent is
  answered 500, not 200; and a whitespace-only password of seven spaces is not ignored: it is
  hashed and replaces the stored hash.
\<close>

theorem update_any_body_counterexample:
  "kv_get ann_store (Str (js ''a@b.com'')) = Inr (Some ann_record) \<and>
   updateUser demo (js ''s2'') ann_store (js ''a@b.com'') Null =
     (respond 500 InternalServerError, ann_store) \<and>
   updateUser demo (js ''s2'') ann_store (js ''a@b.com'') Undefined =
     (respond 500 InternalServerError, ann_store) \<and>
   trim (js ''       '') = [] \<and>
   updateUser demo (js ''s2'') ann_store (js ''a@b.com'')
     (Obj [(js ''password'', Str (js ''       ''))]) =
     (respond 200 UserUpdated,
      [(Str (js ''a@b.com''),
        [(js ''firstName'', Str (js ''A'')), (js ''lastName'', Str (js ''B'')),
         (js ''email'', Str (js ''a@b.com'')), (js ''password'', Str (js ''s2$       '')),
         (js ''phone'', Str (js ''+998900000000'')), (js ''address'', Str (js ''X''))])]) \<and>
   Str (js ''s2$       '') \<noteq> get_prop (Obj ann_record) (js ''password'')"
proof -
  let ?body = "Obj [(js ''password'', Str (js ''       ''))]"
  have null: "updateUser demo (js ''s2'') ann_store (js ''a@b.com'') Null =
     (respond 500 InternalServerError, ann_store)"
    by (simp add: updateUser_def ann_store_def internal_error_def)
  have undef: "updateUser demo (js ''s2'') ann_store (js ''a@b.com'') Undefined =
     (respond 500 InternalServerError, ann_store)"
    by (simp add: updateUser_def ann_store_def internal_error_def)
  have blank: "trim (js ''       '') = []"
    by (simp add: js_def trim_def is_ws_def)
  have fields: "merge_fields ?body ann_record = ann_record"
    by (simp add: merge_fields_def merge_field_def)
  have pw: "merge_password demo (js ''s2'') ?body ann_record =
      Inr (AList.update (js ''password'') (Str (js ''s2$       '')) ann_record)"
    by (simp add: merge_password_def demo_hash_Str) (simp add: js_def)
  have run: "updateUser demo (js ''s2'') ann_store (js ''a@b.com'') ?body =
      (respond 200 UserUpdated,
       AList.update (Str (js ''a@b.com''))
         (AList.update (js ''password'') (Str (js ''s2$       '')) ann_record) ann_store)"
    using updateUser_run [OF ann_stored, of ?body demo "js ''s2''"] by (simp add: fields pw)
  have differs: "Str (js ''s2$       '') \<noteq> get_prop (Obj ann_record) (js ''password'')"
    by (simp add: ann_record_def)
  from ann_stored null undef blank run differs show ?thesis
    by (simp add: ann_store_def ann_record_def)
qed

lemma keys_update_present:
  "map_of al k = Some v \<Longrightarrow> map fst (AList.update k v' al) = map fst al"
  by (induction al) (auto split: if_splits)

text \<open>
  C10, amended. For an existing email and every body that is not \<open>null\<close> or \<open>undefined\<close>
  (and a library that hashes the password when one of at least 6 code units is supplied),
  \<open>updateUser\<close> responds 200 and never a validation error. The keys of the store and every
  other record stay as they are, and so does the email of the record. A password that is not
  a string or is shorter than 6 code units is ignored and the stored hash stays; any other
  password, whitespace-only or not, is hashed and stored. A value of firstName, lastName, phone
  or address that is not a string or is whitespace-only is ignored and the stored value stays.
\<close>

theorem update_existing_lenient:
  assumes stored: "kv_get st (Str e) = Inr (Some user)"
    and body: "\<not> nullish body"
    and hash: "is_str (get_prop body (js ''password'')) \<and>
               6 \<le> length (str_of (get_prop body (js ''password'')))
               \<longrightarrow> bcrypt_hash d (get_prop body (js ''password'')) salt = Inr hashed"
  shows "\<exists>updated.
     updateUser d salt st e body = (respond 200 UserUpdated, AList.update (Str e) updated st) \<and>
     map fst (AList.update (Str e) updated st) = map fst st \<and>
     (\<forall>k. k \<noteq> Str e \<longrightarrow> map_of (AList.update (Str e) updated st) k = map_of st k) \<and>
     get_prop (Obj updated) (js ''email'') = get_prop (Obj user) (js ''email'') \<and>
     get_prop (Obj updated) (js ''password'') =
       (if is_str (get_prop body (js ''password'')) \<and>
           6 \<le> length (str_of (get_prop body (js ''password'')))
        then Str hashed else get_prop (Obj user) (js ''password'')) \<and>
     (\<forall>k \<in> {js ''firstName'', js ''lastName'', js ''phone'', js ''address''}.
        get_prop (Obj updated) k =
          (if is_str (get_prop body k) \<and> trim (str_of (get_prop body k)) \<noteq> []
           then get_prop body k else get_prop (Obj user) k))"
proof -
  let ?pw = "get_prop body (js ''password'')"
  let ?merged = "merge_fields body user"
  define updated where
    "updated = (if is_str ?pw \<and> 6 \<le> length (str_of ?pw)
                then AList.update (js ''password'') (Str hashed) ?merged else ?merged)"
  have mp: "merge_password d salt body ?merged = Inr updated"
  proof (cases "is_str ?pw \<and> 6 \<le> length (str_of ?pw)")
    case True
    with hash have "bcrypt_hash d ?pw salt = Inr hashed" by simp
    with True show ?thesis by (simp add: merge_password_hash updated_def)
  next
    case False
    then show ?thesis using merge_password_skip [of body d salt ?merged] by (auto simp add: updated_def)
  qed
  then have run: "updateUser d salt st e body =
      (respond 200 UserUpdated, AList.update (Str e) updated st)"
    using updateUser_run [OF stored body, of d salt] by simp
  from stored have present: "map_of st (Str e) = Some user" by simp
  have keys: "map fst (AList.update (Str e) updated st) = map fst st"
    using present by (rule keys_update_present)
  have others: "\<forall>k. k \<noteq> Str e \<longrightarrow> map_of (AList.update (Str e) updated st) k = map_of st k"
    by (simp add: update_conv')
  have email: "get_prop (Obj updated) (js ''email'') = get_prop (Obj user) (js ''email'')"
    using merge_password_other [OF mp, of "js ''email''"]
    by (simp add: merge_fields_other del: get_prop.simps)
  have pw: "get_prop (Obj updated) (js ''password'') =
       (if is_str ?pw \<and> 6 \<le> length (str_of ?pw)
        then Str hashed else get_prop (Obj user) (js ''password''))"
    unfolding updated_def
    by (simp add: get_prop_update merge_fields_other del: get_prop.simps)
  have fields: "\<forall>k \<in> {js ''firstName'', js ''lastName'', js ''phone'', js ''address''}.
        get_prop (Obj updated) k =
          (if is_str (get_prop body k) \<and> trim (str_of (get_prop body k)) \<noteq> []
           then get_prop body k else get_prop (Obj user) k)"
  proof
    fix k assume k: "k \<in> {js ''firstName'', js ''lastName'', js ''phone'', js ''address''}"
    then have "k \<noteq> js ''password''" by auto
    with merge_password_other [OF mp, of k] merge_fields_field [OF k, of body user]
    show "get_prop (Obj updated) k =
          (if is_str (get_prop body k) \<and> trim (str_of (get_prop body k)) \<noteq> []
           then get_prop body k else get_prop (Obj user) k)"
      by simp
  qed
  from run keys others email pw fields show ?thesis by blast
qed

theorem update_existing_lenient_witness:
  "kv_get ann_store (Str (js ''a@b.com'')) = Inr (Some ann_record) \<and>
   bcrypt_hash demo (Str (js ''newpass1'')) (js ''s2'') = Inr (js ''s2$newpass1'') \<and>
   updateUser demo (js ''s2'') ann_store (js ''a@b.com'')
     (Obj [(js ''firstName'', Num 7), (js ''lastName'', Str (js '' '')),
           (js ''password'', Str (js ''newpass1'')), (js ''email'', Str (js ''x@y.zz''))]) =
     (respond 200 UserUpdated,
      [(Str (js ''a@b.com''),
        [(js ''firstName'', Str (js ''A'')), (js ''lastName'', Str (js ''B'')),
         (js ''email'', Str (js ''a@b.com'')), (js ''password'', Str (js ''s2$newpass1'')),
         (js ''phone'', Str (js ''+998900000000'')), (js ''address'', Str (js ''X''))])])"
proof -
  let ?body = "Obj [(js ''firstName'', Num 7), (js ''lastName'', Str (js '' '')),
           (js ''password'', Str (js ''newpass1'')), (js ''email'', Str (js ''x@y.zz''))]"
  have body: "\<not> nullish ?body" by simp
  have pw: "get_prop ?body (js ''password'') = Str (js ''newpass1'')" by simp
  have h: "bcrypt_hash demo (Str (js ''newpass1'')) (js ''s2'') = Inr (js ''s2$newpass1'')"
    unfolding demo_hash_Str by (simp add: js_def)
  then have hash: "is_str (get_prop ?body (js ''password'')) \<and>
               6 \<le> length (str_of (get_prop ?body (js ''password'')))
               \<longrightarrow> bcrypt_hash demo (get_prop ?body (js ''password'')) (js ''s2'') =
                   Inr (js ''s2$newpass1'')"
    unfolding pw by simp
  from update_existing_lenient [OF ann_stored body hash] obtain updated where
    run: "updateUser demo (js ''s2'') ann_store (js ''a@b.com'') ?body =
            (respond 200 UserUpdated, AList.update (Str (js ''a@b.com'')) updated ann_store)"
    by blast
  have blank: "trim (js '' '') = []"
    by (simp add: js_def trim_def is_ws_def)
  have long: "6 \<le> length (js ''newpass1'')" by (simp add: js_def)
  have "merge_fields ?body ann_record = ann_record"
    using blank by (simp add: merge_fields_def merge_field_def)
  moreover have "merge_password demo (js ''s2'') ?body ann_record =
      Inr (AList.update (js ''password'') (Str (js ''s2$newpass1'')) ann_record)"
    by (rule merge_password_hash) (simp_all only: pw is_str.simps str_of.simps long h)
  ultimately have "updateUser demo (js ''s2'') ann_store (js ''a@b.com'') ?body =
      (respond 200 UserUpdated,
       AList.update (Str (js ''a@b.com''))
         (AList.update (js ''password'') (Str (js ''s2$newpass1'')) ann_record) ann_store)"
    using updateUser_run [OF ann_stored body, of demo "js ''s2''"] by simp
  then have "updateUser demo (js ''s2'') ann_store (js ''a@b.com'') ?body =
     (respond 200 UserUpdated,
      [(Str (js ''a@b.com''),
        [(js ''firstName'', Str (js ''A'')), (js ''lastName'', Str (js ''B'')),
         (js ''email'', Str (js ''a@b.com'')), (js ''password'', Str (js ''s2$newpass1'')),
         (js ''phone'', Str (js ''+998900000000'')), (js ''address'', Str (js ''X''))])])"
    by (simp add: ann_store_def ann_record_def)
  with run ann_stored h show ?thesis by simp
qed


section \<open>What the two expressions match\<close>

lemma rx_test_Fail [simp]: "rx_test Fail s = False"
  by (induction s) simp_all

lemma rx_test_Alt [simp]: "rx_test (Alt r1 r2) s \<longleftrightarrow> rx_test r1 s \<or> rx_test r2 s"
  by (induction s arbitrary: r1 r2) simp_all

lemma rx_test_Cat_Fail [simp]: "rx_test (Cat Fail r) s = False"
  by (induction s) simp_all

lemma rx_test_Cat_Eps [simp]: "rx_test (Cat Eps r) s = rx_test r s"
  by (cases s) simp_all

lemma rx_test_Star_Class: "rx_test (Star (Class p)) s \<longleftrightarrow> (\<forall>c \<in> set s. p c)"
  by (induction s) simp_all

lemma rx_test_Plus_Class: "rx_test (Plus (Class p)) s \<longleftrightarrow> s \<noteq> [] \<and> (\<forall>c \<in> set s. p c)"
  by (cases s) (simp_all add: Plus_def rx_test_Star_Class)

lemma phone_regex_iff: "rx_test phoneRegex s \<longleftrightarrow> s \<noteq> [] \<and> (\<forall>c \<in> set s. plus_or_digit c)"
  by (simp add: phoneRegex_def rx_test_Plus_Class)

text \<open>The email expression: a local part, \<open>@\<close>, a domain, a dot and a suffix, all non-empty and free of \<open>@\<close> and white space.\<close>

lemma rx_test_Eps [simp]: "rx_test Eps s \<longleftrightarrow> s = []"
  by (cases s) simp_all

lemma rx_test_Class: "rx_test (Class p) s \<longleftrightarrow> (\<exists>c. s = [c] \<and> p c)"
  by (cases s) auto

lemma split_Cons:
  "(\<exists>u v. c # cs = u @ v \<and> rx_test r1 u \<and> rx_test r2 v) \<longleftrightarrow>
      (nullable r1 \<and> rx_test r2 (c # cs)) \<or>
      (\<exists>u v. cs = u @ v \<and> rx_test (deriv c r1) u \<and> rx_test r2 v)"
  (is "?L \<longleftrightarrow> ?N \<or> ?R")
proof
  assume ?L
  then obtain u v where uv: "c # cs = u @ v" "rx_test r1 u" "rx_test r2 v" by blast
  show "?N \<or> ?R"
  proof (cases u)
    case Nil
    with uv show ?thesis by simp
  next
    case (Cons x u')
    with uv have "cs = u' @ v" "rx_test (deriv c r1) u'" by simp_all
    with uv(3) show ?thesis by blast
  qed
next
  assume "?N \<or> ?R"
  then show ?L
  proof
    assume ?N
    then have "c # cs = [] @ (c # cs) \<and> rx_test r1 [] \<and> rx_test r2 (c # cs)" by simp
    then show ?L by blast
  next
    assume ?R
    then obtain u v where "cs = u @ v" "rx_test (deriv c r1) u" "rx_test r2 v" by blast
    then have "c # cs = (c # u) @ v \<and> rx_test r1 (c # u) \<and> rx_test r2 v" by simp
    then show ?L by blast
  qed
qed

lemma rx_test_Cat:
  "rx_test (Cat r1 r2) s \<longleftrightarrow> (\<exists>u v. s = u @ v \<and> rx_test r1 u \<and> rx_test r2 v)"
proof (induction s arbitrary: r1 r2)
  case Nil
  show ?case by simp
next
  case (Cons c cs)
  show ?case
    unfolding split_Cons by (simp add: Cons.IH) blast
qed

lemma email_regex_iff:
  "rx_test emailRegex s \<longleftrightarrow>
     (\<exists>a b c. s = a @ [64] @ b @ [46] @ c \<and> a \<noteq> [] \<and> b \<noteq> [] \<and> c \<noteq> [] \<and>
        (\<forall>x \<in> set a \<union> set b \<union> set c. not_at_ws x))"
proof -
  have "rx_test emailRegex s \<longleftrightarrow>
     (\<exists>a v1. s = a @ v1 \<and> (a \<noteq> [] \<and> (\<forall>x \<in> set a. not_at_ws x)) \<and>
       (\<exists>u2 v2. v1 = u2 @ v2 \<and> u2 = [64] \<and>
         (\<exists>b v3. v2 = b @ v3 \<and> (b \<noteq> [] \<and> (\<forall>x \<in> set b. not_at_ws x)) \<and>
           (\<exists>u4 c. v3 = u4 @ c \<and> u4 = [46] \<and> (c \<noteq> [] \<and> (\<forall>x \<in> set c. not_at_ws x))))))"
    unfolding emailRegex_def rx_test_Cat rx_test_Plus_Class rx_test_Class by simp
  also have "\<dots> \<longleftrightarrow>
     (\<exists>a b c. s = a @ [64] @ b @ [46] @ c \<and> a \<noteq> [] \<and> b \<noteq> [] \<and> c \<noteq> [] \<and>
        (\<forall>x \<in> set a \<union> set b \<union> set c. not_at_ws x))"
    by (simp add: ball_Un) blast
  finally show ?thesis .
qed

lemma plus_or_digit_not_ws: "plus_or_digit c \<Longrightarrow> \<not> is_ws c"
  unfolding plus_or_digit_def is_ws_def by (auto simp add: word_le_nat_alt)


section \<open>The constraints on stored records\<close>

lemma trim_not_ws_ends:
  assumes "s \<noteq> []" "\<not> is_ws (hd s)" "\<not> is_ws (last s)"
  shows "trim s = s"
proof -
  from assms have "dropWhile is_ws s = s" by (cases s) simp_all
  moreover from assms have "dropWhile is_ws (rev s) = rev s"
    by (cases "rev s") (simp_all add: last_rev [symmetric] hd_rev)
  ultimately show ?thesis by (simp add: trim_def)
qed

lemma phone_ok_text_ok: "spec_phone_ok v \<Longrightarrow> spec_text_ok v"
proof (cases v)
  case (Str s)
  assume "spec_phone_ok v"
  with Str have s: "s \<noteq> []" "\<forall>c \<in> set s. plus_or_digit c"
    by (simp_all add: phone_regex_iff)
  then have "\<not> is_ws (hd s)" "\<not> is_ws (last s)"
    by (simp_all add: plus_or_digit_not_ws)
  with s have "trim s = s" by (simp add: trim_not_ws_ends)
  with s Str show ?thesis by simp
qed simp_all

lemma record_ok_filled: "record_ok u \<Longrightarrow> record_filled u"
  by (simp add: record_ok_def record_filled_def phone_ok_text_ok del: get_prop.simps)

lemma new_record_ok:
  assumes "validateUserData body = Inr []"
  shows "record_ok (new_record body h)"
  using assms by (simp add: validate_nil_iff record_ok_def new_record_def)

lemma merged_text_ok:
  assumes "spec_text_ok (get_prop (Obj user) k)"
    and "k \<in> {js ''firstName'', js ''lastName'', js ''phone'', js ''address''}"
    and "merge_password d salt body (merge_fields body user) = Inr updated"
  shows "spec_text_ok (get_prop (Obj updated) k)"
proof -
  from assms(2) have "k \<noteq> js ''password''" by auto
  with merge_password_other [OF assms(3), of k] merge_fields_field [OF assms(2), of body user]
  have eq: "get_prop (Obj updated) k =
      (if is_str (get_prop body k) \<and> trim (str_of (get_prop body k)) \<noteq> []
       then get_prop body k else get_prop (Obj user) k)"
    by simp
  show ?thesis
  proof (cases "is_str (get_prop body k) \<and> trim (str_of (get_prop body k)) \<noteq> []")
    case True
    then have "spec_text_ok (get_prop body k)" by (cases "get_prop body k") simp_all
    with True eq show ?thesis by simp
  next
    case False
    with eq assms(1) show ?thesis by simp
  qed
qed

lemma merged_filled:
  assumes "record_filled user"
    and "merge_password d salt body (merge_fields body user) = Inr updated"
  shows "record_filled updated"
  using assms merged_text_ok [OF _ _ assms(2)]
  by (simp add: record_filled_def del: get_prop.simps)

lemma merged_ok:
  assumes "record_ok user"
    and "merge_password d salt body (merge_fields body user) = Inr updated"
    and "is_str (get_prop body (js ''phone'')) \<and> trim (str_of (get_prop body (js ''phone''))) \<noteq> []
         \<longrightarrow> spec_phone_ok (get_prop body (js ''phone''))"
  shows "record_ok updated"
proof -
  have "get_prop (Obj updated) (js ''phone'') =
      (if is_str (get_prop body (js ''phone'')) \<and> trim (str_of (get_prop body (js ''phone''))) \<noteq> []
       then get_prop body (js ''phone'') else get_prop (Obj user) (js ''phone''))"
    using merge_password_other [OF assms(2), of "js ''phone''"]
      merge_fields_field [of "js ''phone''" body user] by simp
  with assms(1,3) have "spec_phone_ok (get_prop (Obj updated) (js ''phone''))"
    by (simp add: record_ok_def del: get_prop.simps)
  with assms(1) merged_text_ok [OF _ _ assms(2)] show ?thesis
    by (simp add: record_ok_def del: get_prop.simps)
qed

lemma all_update:
  assumes "\<forall>u \<in> snd ` set st. P u" "P v"
  shows "\<forall>u \<in> snd ` set (AList.update k v st). P u"
  using assms set_update_subset [of k v st] by auto

lemma all_delete:
  assumes "\<forall>u \<in> snd ` set st. P u"
  shows "\<forall>u \<in> snd ` set (AList.delete k st). P u"
  using assms set_delete_subset [of k st] by auto

lemma register_keeps:
  assumes all: "\<forall>u \<in> snd ` set st. P u"
    and new: "\<And>h. validateUserData body = Inr [] \<Longrightarrow> P (new_record body h)"
  shows "\<forall>u \<in> snd ` set (snd (registerUser d salt st body)). P u"
proof -
  obtain r st' where run: "registerUser d salt st body = (r, st')"
    by (cases "registerUser d salt st body")
  from registerUser_cases [OF run] have "\<forall>u \<in> snd ` set st'. P u"
  proof
    assume "st' = st" with all show ?thesis by simp
  next
    assume "\<exists>e hashedPwd. validateUserData body = Inr [] \<and> get_prop body (js ''email'') = Str e \<and>
        map_of st (Str e) = None \<and>
        bcrypt_hash d (get_prop body (js ''password'')) salt = Inr hashedPwd \<and>
        r = respond 200 RegistrationSuccess \<and>
        st' = AList.update (Str e) (new_record body hashedPwd) st"
    then obtain e h where valid: "validateUserData body = Inr []"
      and st': "st' = AList.update (Str e) (new_record body h) st"
      by blast
    from all new [OF valid] show ?thesis unfolding st' by (rule all_update)
  qed
  with run show ?thesis by simp
qed

lemma register_keeps_ok:
  assumes "\<forall>u \<in> snd ` set st. record_ok u"
  shows "\<forall>u \<in> snd ` set (snd (registerUser d salt st body)). record_ok u"
  using assms by (rule register_keeps) (rule new_record_ok)

lemma register_keeps_filled:
  assumes "\<forall>u \<in> snd ` set st. record_filled u"
  shows "\<forall>u \<in> snd ` set (snd (registerUser d salt st body)). record_filled u"
  using assms by (rule register_keeps) (rule record_ok_filled, rule new_record_ok)

lemma delete_keeps:
  assumes all: "\<forall>u \<in> snd ` set st. P u"
  shows "\<forall>u \<in> snd ` set (snd (deleteUser st e)). P u"
proof -
  obtain r st' where run: "deleteUser st e = (r, st')" by (cases "deleteUser st e")
  from deleteUser_cases [OF run] have "\<forall>u \<in> snd ` set st'. P u"
  proof
    assume "st' = st" with all show ?thesis by simp
  next
    assume "r = respond 200 UserDeleted \<and> st' = AList.delete (Str e) st"
    then have st': "st' = AList.delete (Str e) st" ..
    from all show ?thesis unfolding st' by (rule all_delete)
  qed
  with run show ?thesis by simp
qed

lemma update_keeps_filled:
  assumes "\<forall>u \<in> snd ` set st. record_filled u"
  shows "\<forall>u \<in> snd ` set (snd (updateUser d salt st e body)). record_filled u"
proof -
  obtain r st' where run: "updateUser d salt st e body = (r, st')"
    by (cases "updateUser d salt st e body")
  from updateUser_cases [OF run] have "\<forall>u \<in> snd ` set st'. record_filled u"
  proof
    assume "st' = st" with assms show ?thesis by simp
  next
    assume "\<exists>user updated. map_of st (Str e) = Some user \<and> \<not> nullish body \<and>
        merge_password d salt body (merge_fields body user) = Inr updated \<and>
        r = respond 200 UserUpdated \<and> st' = AList.update (Str e) updated st"
    then obtain user updated where
      user: "map_of st (Str e) = Some user" and
      upd: "merge_password d salt body (merge_fields body user) = Inr updated" and
      st': "st' = AList.update (Str e) updated st"
      by blast
    from user have "(Str e, user) \<in> set st" by (rule map_of_SomeD)
    then have "user \<in> snd ` set st" by (rule image_eqI [rotated]) simp
    with assms(1) have "record_filled user" by (rule bspec)
    then have "record_filled updated" using upd by (rule merged_filled)
    with assms(1) show ?thesis unfolding st' by (rule all_update)
  qed
  with run show ?thesis by simp
qed

lemma update_keeps_ok:
  assumes "\<forall>u \<in> snd ` set st. record_ok u"
    and "is_str (get_prop body (js ''phone'')) \<and> trim (str_of (get_prop body (js ''phone''))) \<noteq> []
         \<longrightarrow> spec_phone_ok (get_prop body (js ''phone''))"
  shows "\<forall>u \<in> snd ` set (snd (updateUser d salt st e body)). record_ok u"
proof -
  obtain r st' where run: "updateUser d salt st e body = (r, st')"
    by (cases "updateUser d salt st e body")
  from updateUser_cases [OF run] have "\<forall>u \<in> snd ` set st'. record_ok u"
  proof
    assume "st' = st" with assms show ?thesis by simp
  next
    assume "\<exists>user updated. map_of st (Str e) = Some user \<and> \<not> nullish body \<and>
        merge_password d salt body (merge_fields body user) = Inr updated \<and>
        r = respond 200 UserUpdated \<and> st' = AList.update (Str e) updated st"
    then obtain user updated where
      user: "map_of st (Str e) = Some user" and
      upd: "merge_password d salt body (merge_fields body user) = Inr updated" and
      st': "st' = AList.update (Str e) updated st"
      by blast
    from user have "(Str e, user) \<in> set st" by (rule map_of_SomeD)
    then have "user \<in> snd ` set st" by (rule image_eqI [rotated]) simp
    with assms(1) have "record_ok user" by (rule bspec)
    then have "record_ok updated" using upd assms(2) by (rule merged_ok)
    with assms(1) show ?thesis unfolding st' by (rule all_update)
  qed
  with run show ?thesis by simp
qed

lemma handle_keeps_filled:
  assumes all: "\<forall>u \<in> snd ` set st. record_filled u"
    and run: "handle d salt st req = (resp, st')"
  shows "\<forall>u \<in> snd ` set st'. record_filled u"
proof (cases req)
  case (Register body)
  with run have st': "st' = snd (registerUser d salt st body)" by simp
  from all show ?thesis unfolding st' by (rule register_keeps_filled)
next
  case (Login body)
  with run have "st' = snd (loginUser d st body)" by simp
  with all show ?thesis by (simp only: loginUser_store)
next
  case ListUsers
  with run have "st' = snd (getAllUsers st)" by simp
  with all show ?thesis by (simp only: getAllUsers_store)
next
  case (Update e body)
  with run have st': "st' = snd (updateUser d salt st e body)" by simp
  from all show ?thesis unfolding st' by (rule update_keeps_filled)
next
  case (Delete e)
  with run have st': "st' = snd (deleteUser st e)" by simp
  from all show ?thesis unfolding st' by (rule delete_keeps)
qed

lemma reachable_filled: "reachable d st \<Longrightarrow> \<forall>u \<in> snd ` set st. record_filled u"
proof (induction rule: reachable.induct)
  case initial
  show ?case by simp
next
  case (request st salt req resp st')
  from request.IH request.hyps(2) show ?case by (rule handle_keeps_filled)
qed

text \<open>
  C9, as stated, fails. An update with phone \<open>abc\<close> on a record that meets every constraint
  is answered 200 and stores \<open>abc\<close>, which is shorter than 7 and does not match the phone
  expression.
\<close>

theorem update_breaks_phone_counterexample:
  "record_ok ann_record \<and>
   updateUser demo (js ''s2'') ann_store (js ''a@b.com'') (Obj [(js ''phone'', Str (js ''abc''))]) =
     (respond 200 UserUpdated,
      [(Str (js ''a@b.com''),
        [(js ''firstName'', Str (js ''A'')), (js ''lastName'', Str (js ''B'')),
         (js ''email'', Str (js ''a@b.com'')), (js ''password'', Str (js ''s1$secret1'')),
         (js ''phone'', Str (js ''abc'')), (js ''address'', Str (js ''X''))])]) \<and>
   \<not> rx_test phoneRegex (js ''abc'') \<and>
   \<not> 7 \<le> length (js ''abc'') \<and>
   \<not> record_ok
        [(js ''firstName'', Str (js ''A'')), (js ''lastName'', Str (js ''B'')),
         (js ''email'', Str (js ''a@b.com'')), (js ''password'', Str (js ''s1$secret1'')),
         (js ''phone'', Str (js ''abc'')), (js ''address'', Str (js ''X''))]"
proof -
  let ?body = "Obj [(js ''phone'', Str (js ''abc''))]"
  let ?new = "[(js ''firstName'', Str (js ''A'')), (js ''lastName'', Str (js ''B'')),
         (js ''email'', Str (js ''a@b.com'')), (js ''password'', Str (js ''s1$secret1'')),
         (js ''phone'', Str (js ''abc'')), (js ''address'', Str (js ''X''))]"
  have ok: "record_ok ann_record"
    using new_record_ok [OF ann_valid, of "js ''s1$secret1''"] by (simp add: ann_new_record)
  have body: "\<not> nullish ?body" by simp
  have filled: "trim (js ''abc'') \<noteq> []"
    by (simp add: js_def trim_def is_ws_def)
  have fields: "merge_fields ?body ann_record = ?new"
    using filled by (simp add: merge_fields_def merge_field_def ann_record_def)
  have "merge_password demo (js ''s2'') ?body ?new = Inr ?new"
    by (rule merge_password_skip) simp
  then have run: "updateUser demo (js ''s2'') ann_store (js ''a@b.com'') ?body =
      (respond 200 UserUpdated, [(Str (js ''a@b.com''), ?new)])"
    using updateUser_run [OF ann_stored body, of demo "js ''s2''"]
    by (simp add: fields) (simp add: ann_store_def)
  have short: "\<not> 7 \<le> length (js ''abc'')" by (simp add: js_def)
  have nomatch: "\<not> rx_test phoneRegex (js ''abc'')"
    by (simp add: phone_regex_iff) (simp add: js_def plus_or_digit_def)
  have "get_prop (Obj ?new) (js ''phone'') = Str (js ''abc'')" by simp
  then have bad: "\<not> record_ok ?new"
    unfolding record_ok_def using short by (simp del: get_prop.simps)
  from ok run nomatch short bad show ?thesis by simp
qed

text \<open>
  C9, amended. In every store reached by handling requests one after the other from the empty
  store, every record has firstName, lastName and address non-empty after trimming and a phone
  that is a string non-empty after trimming. When moreover every stored record has a phone of
  length at least 7 matching the phone expression, this still holds after \<open>registerUser\<close>
  and after \<open>deleteUser\<close>, and after \<open>updateUser\<close> provided the phone in the body, if it
  is a string non-empty after trimming, itself meets the phone rule: \<open>updateUser\<close> does not
  check that.
\<close>

theorem stored_records_filled:
  assumes "reachable d st"
  shows "(\<forall>u \<in> snd ` set st. record_filled u) \<and>
         ((\<forall>u \<in> snd ` set st. record_ok u) \<longrightarrow>
            (\<forall>u \<in> snd ` set (snd (registerUser d salt st body)). record_ok u) \<and>
            (\<forall>u \<in> snd ` set (snd (deleteUser st e)). record_ok u) \<and>
            ((is_str (get_prop body (js ''phone'')) \<and>
              trim (str_of (get_prop body (js ''phone''))) \<noteq> []
              \<longrightarrow> spec_phone_ok (get_prop body (js ''phone'')))
             \<longrightarrow> (\<forall>u \<in> snd ` set (snd (updateUser d salt st e body)). record_ok u)))"
proof (intro conjI impI)
  from assms show "\<forall>u \<in> snd ` set st. record_filled u" by (rule reachable_filled)
next
  assume "\<forall>u \<in> snd ` set st. record_ok u"
  then show "\<forall>u \<in> snd ` set (snd (registerUser d salt st body)). record_ok u"
    by (rule register_keeps_ok)
next
  assume "\<forall>u \<in> snd ` set st. record_ok u"
  then show "\<forall>u \<in> snd ` set (snd (deleteUser st e)). record_ok u"
    by (rule delete_keeps)
next
  assume "\<forall>u \<in> snd ` set st. record_ok u"
    and "is_str (get_prop body (js ''phone'')) \<and>
              trim (str_of (get_prop body (js ''phone''))) \<noteq> []
              \<longrightarrow> spec_phone_ok (get_prop body (js ''phone''))"
  then show "\<forall>u \<in> snd ` set (snd (updateUser d salt st e body)). record_ok u"
    by (rule update_keeps_ok)
qed

theorem stored_records_filled_witness:
  "reachable demo ann_store \<and>
   record_filled ann_record \<and>
   record_ok ann_record \<and>
   spec_phone_ok (Str (js ''+1112223'')) \<and>
   list_all record_ok
     (map snd (snd (updateUser demo (js ''s2'') ann_store (js ''a@b.com'')
                      (Obj [(js ''phone'', Str (js ''+1112223''))]))))"
proof -
  let ?body = "Obj [(js ''phone'', Str (js ''+1112223''))]"
  have ok: "record_ok ann_record"
    using new_record_ok [OF ann_valid, of "js ''s1$secret1''"] by (simp add: ann_new_record)
  then have all: "\<forall>u \<in> snd ` set ann_store. record_ok u"
    by (simp add: ann_store_def)
  have phone: "spec_phone_ok (Str (js ''+1112223''))"
    by (simp add: phone_regex_iff) (simp add: js_def plus_or_digit_def)
  then have body: "is_str (get_prop ?body (js ''phone'')) \<and>
      trim (str_of (get_prop ?body (js ''phone''))) \<noteq> []
      \<longrightarrow> spec_phone_ok (get_prop ?body (js ''phone''))"
    by simp
  from stored_records_filled [OF ann_store_reachable, of "js ''s2''" ?body "js ''a@b.com''"]
  have filled: "\<forall>u \<in> snd ` set ann_store. record_filled u"
    and keep: "(\<forall>u \<in> snd ` set ann_store. record_ok u) \<longrightarrow>
       ((is_str (get_prop ?body (js ''phone'')) \<and>
         trim (str_of (get_prop ?body (js ''phone''))) \<noteq> []
         \<longrightarrow> spec_phone_ok (get_prop ?body (js ''phone'')))
        \<longrightarrow> (\<forall>u \<in> snd ` set (snd (updateUser demo (js ''s2'') ann_store (js ''a@b.com'') ?body)).
               record_ok u))"
    by blast+
  from filled have one: "record_filled ann_record" by (simp add: ann_store_def)
  from keep all body
  have "\<forall>u \<in> snd ` set (snd (updateUser demo (js ''s2'') ann_store (js ''a@b.com'') ?body)).
      record_ok u"
    by blast
  then have "list_all record_ok
      (map snd (snd (updateUser demo (js ''s2'') ann_store (js ''a@b.com'') ?body)))"
    by (simp only: list_all_iff set_map)
  with ann_store_reachable one ok phone show ?thesis by blast
qed

end
